theory Spec2Isabelle
  imports Complex_Main
begin

section \<open>Conventions of the embedding\<close>

text \<open>
  The chart code of the repository (class \<open>CircularPackChart\<close>) is embedded function by
  function. Strings are of type \<^typ>\<open>string\<close> (a \<^typ>\<open>char\<close> stands for one code unit, so \<open>length\<close>,
  \<open>take\<close> and \<open>@\<close> are \<open>.length\<close>, \<open>.substring(0, i)\<close> and \<open>+\<close>), a \<open>Map\<close> is a partial function, and
  a value that may be \<open>undefined\<close> is an \<^typ>\<open>'a option\<close>. Every \<open>throw\<close> and every read of a
  property of \<open>undefined\<close> is a branch that returns \<open>Inl\<close> of an error; the state a throwing
  call leaves behind is not modelled.
\<close>

text \<open>
  Numbers are without rounding and without infinities. The text fitter compares widths with
  \<open>maxWidth = d.r * 1.6\<close>, and \<open>d.r\<close> can be \<open>NaN\<close>; there a number is of type \<open>number\<close>, a real
  or \<open>NaN\<close>, with the comparisons and the arithmetic of JavaScript. A width measured by the
  canvas is a real. In the layout functions a coordinate or a radius is a real, or
  \<open>undefined\<close>; under \<open>||\<close> a \<open>NaN\<close> behaves as \<open>undefined\<close> does, elsewhere it is not modelled.
\<close>

text \<open>
  The functions embedded are those of the chart class (the source file whose first class is
  \<open>CircularPackChart\<close>), at these lines: \<open>render\<close> 100-150, \<open>resize\<close> 158-205, \<open>drawNodes\<close>
  575-631, \<open>addTextLabels\<close> 642-736, \<open>processWordForFit\<close> 748-783, \<open>getTextWidth\<close> 792-800,
  \<open>positionRegionCircles\<close> 808-875, \<open>calculateOptimalPositions\<close> 891-1065 and
  \<open>isDescendantOf\<close> 1073-1082.
\<close>

datatype error =
    ContextError   \<comment> \<open>\<open>throw new Error('Context could not be created')\<close>\<close>
  | TypeError      \<comment> \<open>reading a property of \<open>undefined\<close>\<close>
  | PositionError  \<comment> \<open>\<open>throw new Error('Node position could not be calculated')\<close>\<close>

definition bindE :: "error + 'a \<Rightarrow> ('a \<Rightarrow> error + 'b) \<Rightarrow> error + 'b" where
  "bindE m f = (case m of Inl e \<Rightarrow> Inl e | Inr a \<Rightarrow> f a)"

text \<open>\<open>v || d\<close> for a number that may be \<open>undefined\<close>: \<open>undefined\<close> and \<open>0\<close> are falsy.\<close>

definition jsOr :: "real option \<Rightarrow> real \<Rightarrow> real" where
  "jsOr v d = (case v of None \<Rightarrow> d | Some a \<Rightarrow> if a = 0 then d else a)"

section \<open>Numbers that may be NaN\<close>

datatype number = NaN | Finite real

text \<open>\<open>a <= b\<close>, \<open>a < b\<close> and \<open>a > b\<close>: false as soon as one side is \<open>NaN\<close>.\<close>

fun js_le :: "number \<Rightarrow> number \<Rightarrow> bool" where
  "js_le (Finite a) (Finite b) = (a \<le> b)"
| "js_le NaN b = False"
| "js_le (Finite a) NaN = False"

fun js_lt :: "number \<Rightarrow> number \<Rightarrow> bool" where
  "js_lt (Finite a) (Finite b) = (a < b)"
| "js_lt NaN b = False"
| "js_lt (Finite a) NaN = False"

definition js_gt :: "number \<Rightarrow> number \<Rightarrow> bool" where
  "js_gt a b = js_lt b a"

text \<open>
  \<open>a * b\<close>, \<open>a / b\<close> and \<open>Math.max(a, b)\<close>: \<open>NaN\<close> as soon as one argument is. The chart divides
  by the constant 4 only; a quotient by zero, an infinity in JavaScript, is left as \<open>NaN\<close>.
\<close>

fun js_mul :: "number \<Rightarrow> number \<Rightarrow> number" where
  "js_mul (Finite a) (Finite b) = Finite (a * b)"
| "js_mul NaN b = NaN"
| "js_mul (Finite a) NaN = NaN"

fun js_div :: "number \<Rightarrow> number \<Rightarrow> number" where
  "js_div (Finite a) (Finite b) = (if b = 0 then NaN else Finite (a / b))"
| "js_div NaN b = NaN"
| "js_div (Finite a) NaN = NaN"

fun Math_max :: "number \<Rightarrow> number \<Rightarrow> number" where
  "Math_max (Finite a) (Finite b) = Finite (max a b)"
| "Math_max NaN b = NaN"
| "Math_max (Finite a) NaN = NaN"

section \<open>Text fitting\<close>

text \<open>
  \<open>getTextWidth\<close> asks a canvas 2d context for the width of a text at a font size. The
  context is the environment's: \<open>None\<close> when \<open>getContext('2d')\<close> returns \<open>null\<close>, otherwise
  the measuring function \<open>measureText(text).width\<close> after the assignment of the font
  \<open>fontSize px sans-serif\<close>.
\<close>

type_synonym context2d = "string \<Rightarrow> number \<Rightarrow> real"

definition getTextWidth :: "context2d option \<Rightarrow> string \<Rightarrow> number \<Rightarrow> error + number" where
  "getTextWidth context text fontSize =
     (case context of
        None \<Rightarrow> Inl ContextError
      | Some measureText \<Rightarrow> Inr (Finite (measureText text fontSize)))"

text \<open>
  The \<open>for (let i = word.length; i > 0; i--)\<close> loop of \<open>processWordForFit\<close>; the last argument
  is \<open>i\<close>, the result is the value of \<open>truncated\<close> after the loop (\<open>word\<close> when no test fits).
\<close>

fun truncateLoop :: "context2d option \<Rightarrow> string \<Rightarrow> number \<Rightarrow> number \<Rightarrow> nat \<Rightarrow> error + string" where
  "truncateLoop context word maxWidth fontSize 0 = Inr word"
| "truncateLoop context word maxWidth fontSize (Suc i) =
     (let test = take (Suc i) word @ ''...'' in
      bindE (getTextWidth context test fontSize) (\<lambda>w.
        if js_le w maxWidth then Inr test
        else truncateLoop context word maxWidth fontSize i))"

definition processWordForFit ::
  "context2d option \<Rightarrow> string \<Rightarrow> number \<Rightarrow> number \<Rightarrow> number \<Rightarrow> bool \<Rightarrow> error + string" where
  "processWordForFit context word maxWidth fontSize radius forceEllipses =
     bindE (if forceEllipses then Inr False
            else bindE (getTextWidth context word fontSize) (\<lambda>w. Inr (js_le w maxWidth))) (\<lambda>fitsAsIs.
       if fitsAsIs then Inr word
       else
         bindE (truncateLoop context word maxWidth fontSize (length word)) (\<lambda>truncated.
         bindE (getTextWidth context truncated fontSize) (\<lambda>w.
           if js_gt w maxWidth then
             (if js_lt radius (Finite 6) then Inr '''' else Inr (take 1 word @ ''..''))
           else Inr truncated)))"

text \<open>\<open>name.split(' ')\<close>: the pieces between single spaces; never an empty array.\<close>

fun splitSpace :: "string \<Rightarrow> string list" where
  "splitSpace [] = [[]]"
| "splitSpace (c # cs) =
     (if c = CHR '' '' then [] # splitSpace cs
      else (case splitSpace cs of [] \<Rightarrow> [[c]] | w # ws \<Rightarrow> (c # w) # ws))"

text \<open>\<open>s.includes(sub)\<close>: \<open>sub\<close> occurs in \<open>s\<close> as a contiguous piece.\<close>

fun startsWith :: "string \<Rightarrow> string \<Rightarrow> bool" where
  "startsWith s [] = True"
| "startsWith [] (c # sub) = False"
| "startsWith (d # s) (c # sub) = (d = c \<and> startsWith s sub)"

fun str_includes :: "string \<Rightarrow> string \<Rightarrow> bool" where
  "str_includes [] sub = (sub = [])"
| "str_includes (c # s) sub = (startsWith (c # s) sub \<or> str_includes s sub)"

text \<open>
  The loop \<open>for (let i = 0; i < words.length && lines.length < 2; i++)\<close> of \<open>addTextLabels\<close>:
  the remaining words and the lines pushed so far.
\<close>

fun placeWords ::
  "context2d option \<Rightarrow> number \<Rightarrow> number \<Rightarrow> number \<Rightarrow> string list \<Rightarrow> string list \<Rightarrow> error + string list" where
  "placeWords context maxWidth fontSize radius [] lines = Inr lines"
| "placeWords context maxWidth fontSize radius (word # rest) lines =
     (if length lines < 2 then
        bindE (processWordForFit context word maxWidth fontSize radius False) (\<lambda>processedWord.
          if str_includes processedWord ''...'' \<or> processedWord = '''' then
            Inr (if processedWord \<noteq> '''' then lines @ [processedWord] else lines)
          else placeWords context maxWidth fontSize radius rest (lines @ [processedWord]))
      else Inr lines)"

text \<open>
  The lines \<open>addTextLabels\<close> writes into the label of a leaf of name \<open>fullName\<close> and radius
  \<open>radius\<close> (\<open>d.r\<close>): the single text of a one-word name, or the \<open>tspan\<close> lines of a longer
  one.
\<close>

definition addTextLabels :: "context2d option \<Rightarrow> string \<Rightarrow> number \<Rightarrow> error + string list" where
  "addTextLabels context fullName radius =
     (let fontSize = Math_max (Finite 8) (js_div radius (Finite 4));
          maxWidth = js_mul radius (Finite 1.6);
          words = splitSpace fullName
      in
      if length words = 1 then
        bindE (processWordForFit context (words ! 0) maxWidth fontSize radius False) (\<lambda>processedText.
          Inr [processedText])
      else
        bindE (placeWords context maxWidth fontSize radius words []) (\<lambda>lines.
          if length words > length lines \<and> length lines = 2
             \<and> \<not> str_includes (lines ! (length lines - 1)) ''...'' then
            (let lastLine = lines ! (length lines - 1);
                 withEllipses = lastLine @ ''...''
             in
             bindE (getTextWidth context withEllipses fontSize) (\<lambda>w.
               if js_le w maxWidth then Inr (lines[length lines - 1 := withEllipses])
               else
                 bindE (processWordForFit context lastLine maxWidth fontSize radius True) (\<lambda>t.
                   Inr (lines[length lines - 1 := t]))))
          else Inr lines))"

text \<open>
  Measuring functions for the examples. The font size in pixels that the context measures
  with: a font string with \<open>NaN\<close> is not a font, the assignment is ignored and the context
  keeps its initial font of 10 pixels.
\<close>

definition fontPx :: "number \<Rightarrow> real" where
  "fontPx fontSize = (case fontSize of NaN \<Rightarrow> 10 | Finite px \<Rightarrow> px)"

text \<open>A fixed-pitch font whose glyphs are half the font size wide.\<close>

definition fixedPitch :: context2d where
  "fixedPitch text fontSize = real (length text) * fontPx fontSize / 2"

text \<open>A proportional one: a dot is an eighth of the font size wide, any other glyph half of it.\<close>

definition narrowDots :: context2d where
  "narrowDots text fontSize =
     (\<Sum>c\<leftarrow>text. if c = CHR ''.'' then fontPx fontSize / 8 else fontPx fontSize / 2)"

section \<open>Stroke widths\<close>

text \<open>
  The \<open>stroke-width\<close> attribute of a circle, as \<open>drawNodes(width, height)\<close> sets it;
  \<open>hasChildren\<close> is \<open>d.children\<close> being truthy (a region circle).
\<close>

definition drawNodes_strokeWidth :: "real \<Rightarrow> real \<Rightarrow> bool \<Rightarrow> real" where
  "drawNodes_strokeWidth width height hasChildren =
     (let size = min width height;
          baseWidth = max 0.5 (size * 0.001)
      in if hasChildren then baseWidth * 2 else baseWidth)"

text \<open>\<open>render\<close> calls \<open>drawNodes(packSize[0], packSize[1])\<close> with the size of the pack.\<close>

definition render_strokeWidth :: "real \<Rightarrow> real \<Rightarrow> bool \<Rightarrow> real" where
  "render_strokeWidth width height hasChildren =
     (let rectWidth = min width height * 1.2;
          rectHeight = min width height * 0.8
      in drawNodes_strokeWidth rectWidth rectHeight hasChildren)"

text \<open>\<open>resize(width, height)\<close> sets the attribute again, from the container's size.\<close>

definition resize_strokeWidth :: "real \<Rightarrow> real \<Rightarrow> bool \<Rightarrow> real" where
  "resize_strokeWidth width height hasChildren =
     (let size = min width height;
          baseWidth = max 0.5 (size * 0.001)
      in if hasChildren then baseWidth * 2 else baseWidth)"

section \<open>The circle hierarchy\<close>

text \<open>
  \<open>this.nodes\<close> is the array \<open>pack(root).descendants()\<close>; a node is identified by its index
  in that array. Of a node's \<open>data\<close> only the fields of \<open>NodeData\<close> that are not themselves
  nodes are kept. \<open>node.parent\<close> is never assigned by the chart, and \<open>d3.hierarchy\<close> builds a
  finite tree, so the field \<open>node_parents\<close> holds the whole parent chain of the node: its
  parent, the parent's parent, and so on up to the root (nearest first).
\<close>

record NodeData =
  name :: string
  population :: "real option"
  wikipedia :: "string option"
  flag :: "string option"
  landAreaKM2 :: "real option"

record Node =
  node_x :: "real option"
  node_y :: "real option"
  node_r :: "real option"
  node_depth :: nat
  node_parents :: "nat list"
  node_data :: NodeData

text \<open>
  \<open>isDescendantOf(node, ancestor)\<close>: the loop \<open>while (current)\<close> over the parent chain, comparing
  node identities.
\<close>

fun walkParents :: "nat list \<Rightarrow> nat \<Rightarrow> bool" where
  "walkParents [] ancestor = False"
| "walkParents (current # up) ancestor =
     (if current = ancestor then True else walkParents up ancestor)"

definition isDescendantOf :: "Node \<Rightarrow> nat \<Rightarrow> bool" where
  "isDescendantOf node ancestor = walkParents (node_parents node) ancestor"

text \<open>
  The arrays \<open>descendants()\<close> can return: the depth of a node is the length of its parent
  chain, and the chain of a node is its parent followed by the parent's chain.
\<close>

definition wf_hierarchy :: "Node list \<Rightarrow> bool" where
  "wf_hierarchy nodes =
     list_all (\<lambda>n. node_depth n = length (node_parents n) \<and>
                 (case node_parents n of
                    [] \<Rightarrow> True
                  | p # ps \<Rightarrow> p < length nodes \<and> node_parents (nodes ! p) = ps)) nodes"

text \<open>
  What the chart takes from \<open>pack(root)\<close>, with the pack's size \<open>[packWidth, packHeight]\<close> and a
  padding of 2 or more: a circle lies inside the rectangle of the pack, away from its edges,
  so its centre has defined coordinates strictly inside the rectangle.
\<close>

definition insidePack :: "real \<Rightarrow> real \<Rightarrow> Node \<Rightarrow> bool" where
  "insidePack packWidth packHeight node =
     (case node_x node of
        None \<Rightarrow> False
      | Some x \<Rightarrow>
     (case node_y node of
        None \<Rightarrow> False
      | Some y \<Rightarrow> 0 < x \<and> x < packWidth \<and> 0 < y \<and> y < packHeight))"

section \<open>Optimal positions of the region circles\<close>

datatype QuadrantName = Top | Bottom | Left | Right

record Bounds =
  centerX :: real
  centerY :: real
  maxX :: real
  maxY :: real
  minX :: real
  minY :: real

record Pos =
  pos_x :: real
  pos_y :: real

record Force =
  fx :: real
  fy :: real

text \<open>
  An element of \<open>regions\<close>. The field \<open>node\<close> of the source is never read and is left out;
  \<open>region_quadrant\<close> is \<open>None\<close> when \<open>quadrants[node.data.name]\<close> is none of the four quadrant
  names, so that \<open>quadrantBounds[region.quadrant]\<close> is \<open>undefined\<close>.
\<close>

record Region =
  region_name :: string
  region_radius :: real
  region_quadrant :: "QuadrantName option"

definition mkRegion :: "(string \<rightharpoonup> QuadrantName) \<Rightarrow> Node \<Rightarrow> Region" where
  "mkRegion quads node =
     \<lparr>region_name = name (node_data node),
      region_radius = jsOr (node_r node) 0,
      region_quadrant = quads (name (node_data node))\<rparr>"

definition quadrantBounds :: "real \<Rightarrow> real \<Rightarrow> QuadrantName \<Rightarrow> Bounds" where
  "quadrantBounds packWidth packHeight q =
     (let centreX = packWidth / 2;
          centreY = packHeight / 2;
          margin = 20
      in case q of
          Top \<Rightarrow> \<lparr>centerX = centreX, centerY = centreY * 0.5,
                  maxX = packWidth - margin, maxY = centreY - margin,
                  minX = margin, minY = margin\<rparr>
        | Bottom \<Rightarrow> \<lparr>centerX = centreX, centerY = centreY * 1.5,
                  maxX = packWidth - margin, maxY = packHeight - margin,
                  minX = margin, minY = centreY + margin\<rparr>
        | Left \<Rightarrow> \<lparr>centerX = centreX * 0.5, centerY = centreY,
                  maxX = centreX - margin, maxY = packHeight - margin,
                  minX = margin, minY = margin\<rparr>
        | Right \<Rightarrow> \<lparr>centerX = centreX * 1.5, centerY = centreY,
                  maxX = packWidth - margin, maxY = packHeight - margin,
                  minX = centreX + margin, minY = margin\<rparr>)"

definition maxIterations :: nat where
  "maxIterations = 50"

definition forceStrength :: real where
  "forceStrength = 2.0"

text \<open>
  The first \<open>regions.forEach\<close>: every region starts at the centre of its quadrant.
  \<open>quadrantBounds[undefined]\<close> is \<open>undefined\<close>, and reading its \<open>centerX\<close> throws.
\<close>

fun initPositions ::
  "(QuadrantName \<Rightarrow> Bounds) \<Rightarrow> Region list \<Rightarrow> (string \<rightharpoonup> Pos) \<Rightarrow> error + (string \<rightharpoonup> Pos)" where
  "initPositions qb [] positions = Inr positions"
| "initPositions qb (region # rest) positions =
     (case region_quadrant region of
        None \<Rightarrow> Inl TypeError
      | Some q \<Rightarrow>
          initPositions qb rest
            (positions(region_name region \<mapsto> \<lparr>pos_x = centerX (qb q), pos_y = centerY (qb q)\<rparr>)))"

text \<open>The \<open>forEach\<close> that resets the forces at the start of an iteration.\<close>

fun initForces :: "Region list \<Rightarrow> (string \<rightharpoonup> Force) \<Rightarrow> (string \<rightharpoonup> Force)" where
  "initForces [] forces = forces"
| "initForces (region # rest) forces =
     initForces rest (forces(region_name region \<mapsto> \<lparr>fx = 0, fy = 0\<rparr>))"

text \<open>
  The body of the inner \<open>for\<close> loop, for the pair \<open>region1\<close>, \<open>region2\<close>. The two force
  objects are mutated in place, first \<open>force1\<close>, then \<open>force2\<close>; under one name they are the
  same object.
\<close>

definition pairForce ::
  "(string \<rightharpoonup> Pos) \<Rightarrow> Region \<Rightarrow> Region \<Rightarrow> (string \<rightharpoonup> Force) \<Rightarrow> error + (string \<rightharpoonup> Force)" where
  "pairForce positions region1 region2 forces =
     (case positions (region_name region1) of
        None \<Rightarrow> Inl TypeError
      | Some pos1 \<Rightarrow>
     (case positions (region_name region2) of
        None \<Rightarrow> Inl TypeError
      | Some pos2 \<Rightarrow>
          (let dx = pos_x pos1 - pos_x pos2;
               dy = pos_y pos1 - pos_y pos2;
               distance = sqrt (dx * dx + dy * dy)
           in
           if distance > 0 then
             (let bufferDist = 30;
                  requiredDistance = region_radius region1 + region_radius region2 + bufferDist;
                  force = max 0 (requiredDistance - distance) / distance;
                  fx1 = (dx * force * forceStrength) / 2;
                  fy1 = (dy * force * forceStrength) / 2
              in
              case forces (region_name region1) of
                None \<Rightarrow> Inl TypeError
              | Some force1 \<Rightarrow>
             (case forces (region_name region2) of
                None \<Rightarrow> Inl TypeError
              | Some force2 \<Rightarrow>
                  (let moved1 = \<lparr>fx = fx force1 + fx1, fy = fy force1 + fy1\<rparr>;
                       forces1 = forces(region_name region1 \<mapsto> moved1);
                       current2 = (if region_name region2 = region_name region1 then moved1 else force2)
                   in Inr (forces1(region_name region2 \<mapsto>
                             \<lparr>fx = fx current2 - fx1, fy = fy current2 - fy1\<rparr>)))))
           else Inr forces)))"

text \<open>The loop \<open>for (let j = i + 1; ...)\<close> and the loop \<open>for (let i = 0; ...)\<close> around it.\<close>

fun innerLoop ::
  "(string \<rightharpoonup> Pos) \<Rightarrow> Region \<Rightarrow> Region list \<Rightarrow> (string \<rightharpoonup> Force) \<Rightarrow> error + (string \<rightharpoonup> Force)" where
  "innerLoop positions region1 [] forces = Inr forces"
| "innerLoop positions region1 (region2 # rest) forces =
     bindE (pairForce positions region1 region2 forces) (\<lambda>forces1.
       innerLoop positions region1 rest forces1)"

fun outerLoop ::
  "(string \<rightharpoonup> Pos) \<Rightarrow> Region list \<Rightarrow> (string \<rightharpoonup> Force) \<Rightarrow> error + (string \<rightharpoonup> Force)" where
  "outerLoop positions [] forces = Inr forces"
| "outerLoop positions (region1 # rest) forces =
     bindE (innerLoop positions region1 rest forces) (\<lambda>forces1.
       outerLoop positions rest forces1)"

text \<open>
  The body of the \<open>forEach\<close> that applies the forces: the clamped new position of the region
  and its \<open>movement\<close>.
\<close>

definition constrainRegion ::
  "(QuadrantName \<Rightarrow> Bounds) \<Rightarrow> (string \<rightharpoonup> Force) \<Rightarrow> Region \<Rightarrow> (string \<rightharpoonup> Pos)
     \<Rightarrow> error + (Pos \<times> real)" where
  "constrainRegion qb forces region positions =
     (case positions (region_name region) of
        None \<Rightarrow> Inl TypeError
      | Some currentPos \<Rightarrow>
     (case forces (region_name region) of
        None \<Rightarrow> Inl TypeError
      | Some force \<Rightarrow>
     (case region_quadrant region of
        None \<Rightarrow> Inl TypeError
      | Some q \<Rightarrow>
          (let bounds = qb q;
               newX = pos_x currentPos + fx force;
               newY = pos_y currentPos + fy force;
               paddingDist = 5;
               effectiveRadius = region_radius region + paddingDist;
               newX1 = max (minX bounds + effectiveRadius) (min (maxX bounds - effectiveRadius) newX);
               newY1 = max (minY bounds + effectiveRadius) (min (maxY bounds - effectiveRadius) newY);
               movement = \<bar>newX1 - pos_x currentPos\<bar> + \<bar>newY1 - pos_y currentPos\<bar>
           in Inr (\<lparr>pos_x = newX1, pos_y = newY1\<rparr>, movement)))))"

text \<open>The \<open>forEach\<close> itself; the state is the \<open>positions\<close> map and \<open>totalMovement\<close>.\<close>

fun applyForces ::
  "(QuadrantName \<Rightarrow> Bounds) \<Rightarrow> (string \<rightharpoonup> Force) \<Rightarrow> Region list \<Rightarrow> (string \<rightharpoonup> Pos) \<Rightarrow> real
     \<Rightarrow> error + ((string \<rightharpoonup> Pos) \<times> real)" where
  "applyForces qb forces [] positions totalMovement = Inr (positions, totalMovement)"
| "applyForces qb forces (region # rest) positions totalMovement =
     bindE (constrainRegion qb forces region positions) (\<lambda>(newPos, movement).
       applyForces qb forces rest (positions(region_name region \<mapsto> newPos))
         (totalMovement + movement))"

text \<open>One pass of the body of the iteration loop: the new positions and \<open>totalMovement\<close>.\<close>

definition iterationBody ::
  "(QuadrantName \<Rightarrow> Bounds) \<Rightarrow> Region list \<Rightarrow> (string \<rightharpoonup> Pos) \<Rightarrow> error + ((string \<rightharpoonup> Pos) \<times> real)" where
  "iterationBody qb regions positions =
     bindE (outerLoop positions regions (initForces regions Map.empty)) (\<lambda>forces.
       applyForces qb forces regions positions 0)"

text \<open>\<open>for (let iteration = 0; iteration < maxIterations; iteration++)\<close> with its \<open>break\<close>.\<close>

function optimiseLoop ::
  "(QuadrantName \<Rightarrow> Bounds) \<Rightarrow> Region list \<Rightarrow> nat \<Rightarrow> (string \<rightharpoonup> Pos) \<Rightarrow> error + (string \<rightharpoonup> Pos)" where
  "optimiseLoop qb regions iteration positions =
     (if iteration < maxIterations then
        bindE (iterationBody qb regions positions) (\<lambda>(positions1, totalMovement).
          if totalMovement < 1 then Inr positions1
          else optimiseLoop qb regions (iteration + 1) positions1)
      else Inr positions)"
  by pat_completeness auto
termination
  by (relation "measure (\<lambda>(qb, regions, iteration, positions). maxIterations - iteration)") auto

declare optimiseLoop.simps [simp del]

definition calculateOptimalPositions ::
  "Node list \<Rightarrow> real \<Rightarrow> real \<Rightarrow> (string \<rightharpoonup> QuadrantName) \<Rightarrow> error + (string \<rightharpoonup> Pos)" where
  "calculateOptimalPositions regionNodes packWidth packHeight quads =
     (let regions = map (mkRegion quads) regionNodes;
          qb = quadrantBounds packWidth packHeight
      in bindE (initPositions qb regions Map.empty) (\<lambda>positions.
           optimiseLoop qb regions 0 positions))"

text \<open>
  For stating how the loop is left: the positions after \<open>k\<close> passes of the loop body of
  which none ends the loop, that is, each has a \<open>totalMovement\<close> of at least 1. The value
  is \<open>None\<close> when one of these passes throws or ends the loop.
\<close>

fun passesBefore ::
  "(QuadrantName \<Rightarrow> Bounds) \<Rightarrow> Region list \<Rightarrow> nat \<Rightarrow> (string \<rightharpoonup> Pos) \<Rightarrow> (string \<rightharpoonup> Pos) option" where
  "passesBefore qb regions 0 positions = Some positions"
| "passesBefore qb regions (Suc k) positions =
     (case iterationBody qb regions positions of
        Inl e \<Rightarrow> None
      | Inr (positions1, totalMovement) \<Rightarrow>
          if totalMovement < 1 then None else passesBefore qb regions k positions1)"

section \<open>Positioning the region circles and their descendants\<close>

definition quadrants :: "string \<rightharpoonup> QuadrantName" where
  "quadrants =
     [''Northern Europe'' \<mapsto> Top, ''Western Europe'' \<mapsto> Left,
      ''Eastern Europe'' \<mapsto> Right, ''Southern Europe'' \<mapsto> Bottom]"

text \<open>\<open>originalPositions\<close>, a \<open>Map\<close> keyed by the region node.\<close>

fun storeOriginal :: "real \<Rightarrow> real \<Rightarrow> Node list \<Rightarrow> nat list \<Rightarrow> (nat \<rightharpoonup> Pos) \<Rightarrow> (nat \<rightharpoonup> Pos)" where
  "storeOriginal centreX centreY nodes [] originalPositions = originalPositions"
| "storeOriginal centreX centreY nodes (regionNode # rest) originalPositions =
     storeOriginal centreX centreY nodes rest
       (originalPositions(regionNode \<mapsto>
          \<lparr>pos_x = jsOr (node_x (nodes ! regionNode)) centreX,
           pos_y = jsOr (node_y (nodes ! regionNode)) centreY\<rparr>))"

text \<open>
  \<open>childNodes.forEach\<close>: every child with both coordinates defined is moved by its offset
  from \<open>original\<close>; reading \<open>original.x\<close> of a missing entry throws.
\<close>

fun moveChildren :: "Pos \<Rightarrow> Pos option \<Rightarrow> nat list \<Rightarrow> Node list \<Rightarrow> error + Node list" where
  "moveChildren newPos original [] nodes = Inr nodes"
| "moveChildren newPos original (c # rest) nodes =
     (let childNode = nodes ! c in
      case node_x childNode of
        None \<Rightarrow> moveChildren newPos original rest nodes
      | Some cx \<Rightarrow>
     (case node_y childNode of
        None \<Rightarrow> moveChildren newPos original rest nodes
      | Some cy \<Rightarrow>
     (case original of
        None \<Rightarrow> Inl TypeError
      | Some orig \<Rightarrow>
          (let offsetX = cx - pos_x orig;
               offsetY = cy - pos_y orig
           in moveChildren newPos original rest
                (nodes[c := childNode\<lparr>node_x := Some (pos_x newPos + offsetX),
                                       node_y := Some (pos_y newPos + offsetY)\<rparr>])))))"

text \<open>
  The body of the last \<open>regionNodes.forEach\<close> for the region node of index \<open>regionNode\<close>.
  \<open>positions.has(k)\<close> is \<open>positions k \<noteq> None\<close> and \<open>positions.get(k)\<close> is \<open>positions k\<close>.
\<close>

definition applyRegion ::
  "(string \<rightharpoonup> Pos) \<Rightarrow> (nat \<rightharpoonup> Pos) \<Rightarrow> nat \<Rightarrow> Node list \<Rightarrow> error + Node list" where
  "applyRegion positions originalPositions regionNode nodes =
     (let region = nodes ! regionNode in
      if name (node_data region) \<noteq> '''' \<and> positions (name (node_data region)) \<noteq> None then
        (let original = originalPositions regionNode in
         case positions (name (node_data region)) of
           None \<Rightarrow> Inl PositionError
         | Some newPos \<Rightarrow>
             (let nodes1 = nodes[regionNode := region\<lparr>node_x := Some (pos_x newPos),
                                                      node_y := Some (pos_y newPos)\<rparr>];
                  childNodes = filter (\<lambda>d. node_depth (nodes1 ! d) > 1
                                           \<and> isDescendantOf (nodes1 ! d) regionNode)
                                 [0..<length nodes1]
              in moveChildren newPos original childNodes nodes1))
      else Inr nodes)"

fun applyRegions ::
  "(string \<rightharpoonup> Pos) \<Rightarrow> (nat \<rightharpoonup> Pos) \<Rightarrow> nat list \<Rightarrow> Node list \<Rightarrow> error + Node list" where
  "applyRegions positions originalPositions [] nodes = Inr nodes"
| "applyRegions positions originalPositions (regionNode # rest) nodes =
     bindE (applyRegion positions originalPositions regionNode nodes) (\<lambda>nodes1.
       applyRegions positions originalPositions rest nodes1)"

definition positionRegionCircles :: "real \<Rightarrow> real \<Rightarrow> Node list \<Rightarrow> error + Node list" where
  "positionRegionCircles packWidth packHeight nodes =
     (if nodes = [] then Inr nodes
      else
        (let regionNodes = filter (\<lambda>d. node_depth (nodes ! d) = 1) [0..<length nodes] in
         if regionNodes = [] then Inr nodes
         else
           (let centreX = packWidth / 2;
                centreY = packHeight / 2;
                originalPositions = storeOriginal centreX centreY nodes regionNodes Map.empty
            in
            bindE (calculateOptimalPositions (map (\<lambda>d. nodes ! d) regionNodes)
                     packWidth packHeight quadrants) (\<lambda>positions.
              applyRegions positions originalPositions regionNodes nodes))))"

text \<open>Nodes for the examples.\<close>

definition mkNode :: "string \<Rightarrow> nat list \<Rightarrow> real \<Rightarrow> real \<Rightarrow> real \<Rightarrow> Node" where
  "mkNode nm parents x y r =
     \<lparr>node_x = Some x, node_y = Some y, node_r = Some r,
      node_depth = length parents, node_parents = parents,
      node_data = \<lparr>name = nm, population = None, wikipedia = None, flag = None,
                    landAreaKM2 = None\<rparr>\<rparr>"

text \<open>A root, one region circle of radius 50 at \<open>(rx, ry)\<close> and one leaf in it.\<close>

definition exampleNodes :: "string \<Rightarrow> real \<Rightarrow> real \<Rightarrow> Node list" where
  "exampleNodes regionName rx ry =
     [mkNode ''Europe'' [] 400 300 300,
      mkNode regionName [0] rx ry 50,
      mkNode ''Norway'' [1, 0] (rx + 10) (ry + 10) 5]"

section \<open>Basic facts\<close>

lemma bindE_Inl [simp]: "bindE (Inl e) f = Inl e"
  by (simp add: bindE_def)

lemma bindE_Inr [simp]: "bindE (Inr a) f = f a"
  by (simp add: bindE_def)

lemma bindE_eq_Inr: "bindE m f = Inr b \<longleftrightarrow> (\<exists>a. m = Inr a \<and> f a = Inr b)"
  by (cases m) simp_all

lemma getTextWidth_Some [simp]:
  "getTextWidth (Some m) text fontSize = Inr (Finite (m text fontSize))"
  by (simp add: getTextWidth_def)

lemma getTextWidth_None [simp]: "getTextWidth None text fontSize = Inl ContextError"
  by (simp add: getTextWidth_def)

lemma js_gt_Finite [simp]: "js_gt (Finite a) (Finite b) = (a > b)"
  by (simp add: js_gt_def)

lemma js_gt_NaN [simp]: "js_gt a NaN = False"
  by (simp add: js_gt_def)

lemma js_le_NaN [simp]: "js_le a NaN = False"
  by (cases a) simp_all

lemma js_le_not_gt: "js_le a b \<Longrightarrow> \<not> js_gt a b"
  by (cases a; cases b) simp_all

section \<open>The text fitter\<close>

lemma truncateLoop_Some:
  "\<exists>t. truncateLoop (Some m) word mw fs i = Inr t \<and>
     ((t = word \<and> (\<forall>j. 0 < j \<and> j \<le> i \<longrightarrow> \<not> js_le (Finite (m (take j word @ ''...'') fs)) mw)) \<or>
      (\<exists>k. 0 < k \<and> k \<le> i \<and> t = take k word @ ''...'' \<and> js_le (Finite (m t fs)) mw \<and>
           (\<forall>j. k < j \<and> j \<le> i \<longrightarrow> \<not> js_le (Finite (m (take j word @ ''...'') fs)) mw)))"
proof (induction i)
  case 0
  then show ?case by auto
next
  case (Suc i)
  show ?case
  proof (cases "js_le (Finite (m (take (Suc i) word @ ''...'') fs)) mw")
    case True
    then show ?thesis by (auto simp: Let_def)
  next
    case False
    from Suc obtain t where t: "truncateLoop (Some m) word mw fs i = Inr t"
      and alt: "(t = word \<and> (\<forall>j. 0 < j \<and> j \<le> i \<longrightarrow> \<not> js_le (Finite (m (take j word @ ''...'') fs)) mw)) \<or>
      (\<exists>k. 0 < k \<and> k \<le> i \<and> t = take k word @ ''...'' \<and> js_le (Finite (m t fs)) mw \<and>
           (\<forall>j. k < j \<and> j \<le> i \<longrightarrow> \<not> js_le (Finite (m (take j word @ ''...'') fs)) mw))"
      by blast
    have step: "truncateLoop (Some m) word mw fs (Suc i) = Inr t"
      using False t by (simp add: Let_def)
    from alt show ?thesis
    proof
      assume a: "t = word \<and> (\<forall>j. 0 < j \<and> j \<le> i \<longrightarrow> \<not> js_le (Finite (m (take j word @ ''...'') fs)) mw)"
      have "\<forall>j. 0 < j \<and> j \<le> Suc i \<longrightarrow> \<not> js_le (Finite (m (take j word @ ''...'') fs)) mw"
        using a False by (auto simp: le_Suc_eq)
      with a step show ?thesis by blast
    next
      assume "\<exists>k. 0 < k \<and> k \<le> i \<and> t = take k word @ ''...'' \<and> js_le (Finite (m t fs)) mw \<and>
           (\<forall>j. k < j \<and> j \<le> i \<longrightarrow> \<not> js_le (Finite (m (take j word @ ''...'') fs)) mw)"
      then obtain k where k: "0 < k" "k \<le> i" "t = take k word @ ''...''" "js_le (Finite (m t fs)) mw"
        "\<forall>j. k < j \<and> j \<le> i \<longrightarrow> \<not> js_le (Finite (m (take j word @ ''...'') fs)) mw" by blast
      have "\<forall>j. k < j \<and> j \<le> Suc i \<longrightarrow> \<not> js_le (Finite (m (take j word @ ''...'') fs)) mw"
        using k(5) False by (auto simp: le_Suc_eq)
      with k step show ?thesis by (metis le_SucI)
    qed
  qed
qed

lemma processWordForFit_None: "processWordForFit None word mw fs radius force = Inl ContextError"
  by (cases "length word") (simp_all add: processWordForFit_def Let_def)








text \<open>
  Claim C10, amended. The string returned by \<open>processWordForFit\<close> is the word unchanged, a
  nonempty prefix of the word followed by three dots, the word's first character followed
  by two dots, or the empty string; the empty string is returned only when \<open>radius < 6\<close> or
  the word itself is empty. When \<open>forceEllipses\<close> is true, no nonempty prefix with three dots
  fits and the bare word fits, the word is returned unchanged.
\<close>

theorem processWordForFit_shapes:
  "(case context of
      None \<Rightarrow> processWordForFit context word maxWidth fontSize radius forceEllipses = Inl ContextError
    | Some measureText \<Rightarrow>
        (\<exists>s. processWordForFit context word maxWidth fontSize radius forceEllipses = Inr s \<and>
             (s = word \<or> (\<exists>k. 0 < k \<and> k \<le> length word \<and> s = take k word @ ''...'') \<or>
              s = take 1 word @ ''..'' \<or> s = '''') \<and>
             (s = '''' \<longrightarrow> js_lt radius (Finite 6) \<or> word = '''') \<and>
             (forceEllipses \<and> js_le (Finite (measureText word fontSize)) maxWidth \<and>
              (\<forall>j. 0 < j \<and> j \<le> length word \<longrightarrow>
                 \<not> js_le (Finite (measureText (take j word @ ''...'') fontSize)) maxWidth)
              \<longrightarrow> s = word)))"
proof (cases "context")
  case None
  then show ?thesis by (simp add: processWordForFit_None)
next
  case (Some m)
  obtain t where t: "truncateLoop (Some m) word maxWidth fontSize (length word) = Inr t"
    and alt: "(t = word \<and> (\<forall>j. 0 < j \<and> j \<le> length word \<longrightarrow> \<not> js_le (Finite (m (take j word @ ''...'') fontSize)) maxWidth)) \<or>
      (\<exists>k. 0 < k \<and> k \<le> length word \<and> t = take k word @ ''...'' \<and> js_le (Finite (m t fontSize)) maxWidth \<and>
           (\<forall>j. k < j \<and> j \<le> length word \<longrightarrow> \<not> js_le (Finite (m (take j word @ ''...'') fontSize)) maxWidth))"
    using truncateLoop_Some [of m word maxWidth fontSize "length word"] by blast
  from alt show ?thesis
  proof
    assume "t = word \<and> (\<forall>j. 0 < j \<and> j \<le> length word \<longrightarrow> \<not> js_le (Finite (m (take j word @ ''...'') fontSize)) maxWidth)"
    then show ?thesis using Some t by (auto simp: processWordForFit_def dest: js_le_not_gt)
  next
    assume "\<exists>k. 0 < k \<and> k \<le> length word \<and> t = take k word @ ''...'' \<and> js_le (Finite (m t fontSize)) maxWidth \<and>
           (\<forall>j. k < j \<and> j \<le> length word \<longrightarrow> \<not> js_le (Finite (m (take j word @ ''...'') fontSize)) maxWidth)"
    then obtain k where k: "0 < k" "k \<le> length word" "t = take k word @ ''...''"
      "js_le (Finite (m t fontSize)) maxWidth"
      by blast
    then show ?thesis using Some t js_le_not_gt [OF k(4)] by (auto simp: processWordForFit_def)
  qed
qed

text \<open>The forced case at a concrete word: \<open>ab\<close> fits, neither \<open>a...\<close> nor \<open>ab...\<close> does.\<close>

theorem processWordForFit_shapes_witness:
  "processWordForFit (Some fixedPitch) ''ab'' (Finite 8) (Finite 8) (Finite 10) True = Inr ''ab''"
proof -
  have pre: "True \<and> js_le (Finite (fixedPitch ''ab'' (Finite 8))) (Finite 8) \<and>
      (\<forall>j. 0 < j \<and> j \<le> length ''ab'' \<longrightarrow>
         \<not> js_le (Finite (fixedPitch (take j ''ab'' @ ''...'') (Finite 8))) (Finite 8))"
    by (auto simp: fixedPitch_def fontPx_def)
  from processWordForFit_shapes [of "Some fixedPitch" "''ab''" "Finite 8" "Finite 8" "Finite 10" True] pre
  show ?thesis by auto
qed

text \<open>
  Claim C10 as stated fails for the empty word (a piece of \<open>split(' ')\<close> between two spaces):
  it fits, so it is returned unchanged, with a radius of 10.
\<close>

theorem processWordForFit_empty_word_counterexample:
  "processWordForFit (Some fixedPitch) '''' (Finite 10) (Finite 8) (Finite 10) False = Inr '''' \<and>
   \<not> js_lt (Finite 10) (Finite 6)"
  by (simp add: processWordForFit_def fixedPitch_def fontPx_def)

section \<open>The label lines\<close>

lemma processWordForFit_total:
  "\<exists>s. processWordForFit (Some m) word mw fs radius force = Inr s"
proof -
  obtain t where t: "truncateLoop (Some m) word mw fs (length word) = Inr t"
    using truncateLoop_Some [of m word mw fs "length word"] by blast
  then show ?thesis by (auto simp: processWordForFit_def)
qed

lemma placeWords_total:
  "\<exists>res. placeWords (Some m) mw fs radius words lines = Inr res"
proof (induction words arbitrary: lines)
  case Nil
  show ?case by simp
next
  case (Cons word rest)
  obtain p where p: "processWordForFit (Some m) word mw fs radius False = Inr p"
    using processWordForFit_total by blast
  show ?case using p Cons [of "lines @ [p]"] by auto
qed

lemma placeWords_length:
  "placeWords context mw fs radius words lines = Inr res \<Longrightarrow> length lines \<le> 2 \<Longrightarrow> length res \<le> 2"
proof (induction words arbitrary: lines res)
  case Nil
  then show ?case by simp
next
  case (Cons word rest)
  show ?case
  proof (cases "length lines < 2")
    case True
    with Cons.prems obtain p where p: "processWordForFit context word mw fs radius False = Inr p"
      and r: "(if str_includes p ''...'' \<or> p = '''' then
                 Inr (if p \<noteq> '''' then lines @ [p] else lines)
               else placeWords context mw fs radius rest (lines @ [p])) = Inr res"
      by (auto simp: bindE_eq_Inr)
    show ?thesis
    proof (cases "str_includes p ''...'' \<or> p = ''''")
      case stop: True
      with r True show ?thesis by (auto split: if_splits)
    next
      case False
      with r have "placeWords context mw fs radius rest (lines @ [p]) = Inr res" by simp
      from Cons.IH [OF this] True show ?thesis by simp
    qed
  next
    case False
    with Cons.prems show ?thesis by simp
  qed
qed

lemma placeWords_butlast:
  "placeWords context mw fs radius words lines = Inr res \<Longrightarrow>
   \<forall>l \<in> set lines. \<not> str_includes l ''...'' \<and> l \<noteq> '''' \<Longrightarrow>
   \<forall>l \<in> set (butlast res). \<not> str_includes l ''...'' \<and> l \<noteq> ''''"
proof (induction words arbitrary: lines res)
  case Nil
  then show ?case by (auto dest: in_set_butlastD)
next
  case (Cons word rest)
  show ?case
  proof (cases "length lines < 2")
    case True
    with Cons.prems(1) obtain p where p: "processWordForFit context word mw fs radius False = Inr p"
      and r: "(if str_includes p ''...'' \<or> p = '''' then
                 Inr (if p \<noteq> '''' then lines @ [p] else lines)
               else placeWords context mw fs radius rest (lines @ [p])) = Inr res"
      by (auto simp: bindE_eq_Inr)
    show ?thesis
    proof (cases "str_includes p ''...'' \<or> p = ''''")
      case stop: True
      with r have "res = lines @ [p] \<or> res = lines" by (auto split: if_splits)
      with Cons.prems(2) show ?thesis by (auto dest: in_set_butlastD)
    next
      case False
      with r have rec: "placeWords context mw fs radius rest (lines @ [p]) = Inr res" by simp
      have "\<forall>l \<in> set (lines @ [p]). \<not> str_includes l ''...'' \<and> l \<noteq> ''''"
        using Cons.prems(2) False by auto
      from Cons.IH [OF rec this] show ?thesis .
    qed
  next
    case False
    with Cons.prems show ?thesis by (auto dest: in_set_butlastD)
  qed
qed

lemma placeWords_two:
  assumes "placeWords (Some m) mw fs radius words [] = Inr res" and "length res = 2"
  shows "\<exists>p1 p2. 1 < length words \<and> res = [p1, p2] \<and>
           processWordForFit (Some m) (words ! 1) mw fs radius False = Inr p2"
proof (cases words)
  case Nil
  with assms show ?thesis by simp
next
  case (Cons w1 rest1)
  obtain p1 where p1: "processWordForFit (Some m) w1 mw fs radius False = Inr p1"
    using processWordForFit_total by blast
  show ?thesis
  proof (cases "str_includes p1 ''...'' \<or> p1 = ''''")
    case True
    with assms Cons p1 show ?thesis by (auto split: if_splits)
  next
    case go1: False
    with assms Cons p1 have r1: "placeWords (Some m) mw fs radius rest1 [p1] = Inr res" by simp
    show ?thesis
    proof (cases rest1)
      case Nil
      with r1 assms show ?thesis by auto
    next
      case (Cons w2 rest2)
      obtain p2 where p2: "processWordForFit (Some m) w2 mw fs radius False = Inr p2"
        using processWordForFit_total by blast
      have "res = [p1, p2]"
      proof (cases "str_includes p2 ''...'' \<or> p2 = ''''")
        case True
        with r1 Cons p2 assms(2) show ?thesis by (auto split: if_splits)
      next
        case False
        with r1 Cons p2 have "placeWords (Some m) mw fs radius rest2 [p1, p2] = Inr res" by simp
        then show ?thesis by (cases rest2) simp_all
      qed
      with p2 Cons \<open>words = w1 # rest1\<close> show ?thesis by simp
    qed
  qed
qed

lemma nth_in_butlast: "Suc i < length xs \<Longrightarrow> xs ! i \<in> set (butlast xs)"
proof -
  assume a: "Suc i < length xs"
  then have "i < length (butlast xs)" by simp
  then have "butlast xs ! i \<in> set (butlast xs)" by (rule nth_mem)
  moreover have "butlast xs ! i = xs ! i" using \<open>i < length (butlast xs)\<close> by (rule nth_butlast)
  ultimately show ?thesis by simp
qed

text \<open>
  Claim C6, amended. For every name and radius, with a canvas context, \<open>addTextLabels\<close>
  produces at most 2 lines. The greedy placement stops adding words once a processed word
  contains three dots or is empty: only the last line can contain three dots. When words
  remain unplaced after 2 lines, a last line that already contains three dots is left as
  it is; otherwise it gets three dots appended if that still fits within \<open>maxWidth\<close>, and
  else is replaced by \<open>processWordForFit\<close> of it with forced ellipsis.
\<close>

theorem addTextLabels_two_lines:
  "\<exists>lines. addTextLabels (Some measureText) fullName radius = Inr lines \<and>
     length lines \<le> 2 \<and>
     (\<forall>i. Suc i < length lines \<longrightarrow> \<not> str_includes (lines ! i) ''...'' \<and> lines ! i \<noteq> '''') \<and>
     (2 < length (splitSpace fullName) \<and> length lines = 2 \<longrightarrow>
        (\<exists>p2. processWordForFit (Some measureText) (splitSpace fullName ! 1) (js_mul radius (Finite 1.6))
                 (Math_max (Finite 8) (js_div radius (Finite 4))) radius False = Inr p2 \<and>
          (if str_includes p2 ''...'' then lines ! 1 = p2
           else if js_le (Finite (measureText (p2 @ ''...'') (Math_max (Finite 8) (js_div radius (Finite 4))))) (js_mul radius (Finite 1.6))
             then lines ! 1 = p2 @ ''...''
           else processWordForFit (Some measureText) p2 (js_mul radius (Finite 1.6)) (Math_max (Finite 8) (js_div radius (Finite 4))) radius True
                  = Inr (lines ! 1))))"
proof -
  define fs where "fs = Math_max (Finite 8) (js_div radius (Finite 4))"
  define mw where "mw = js_mul radius (Finite 1.6)"
  define words where "words = splitSpace fullName"
  let ?ok = "\<lambda>lines. length lines \<le> 2 \<and>
     (\<forall>i. Suc i < length lines \<longrightarrow> \<not> str_includes (lines ! i) ''...'' \<and> lines ! i \<noteq> '''') \<and>
     (2 < length words \<and> length lines = 2 \<longrightarrow>
        (\<exists>p2. processWordForFit (Some measureText) (words ! 1) mw fs radius False = Inr p2 \<and>
          (if str_includes p2 ''...'' then lines ! 1 = p2
           else if js_le (Finite (measureText (p2 @ ''...'') fs)) mw then lines ! 1 = p2 @ ''...''
           else processWordForFit (Some measureText) p2 mw fs radius True = Inr (lines ! 1))))"
  have "\<exists>lines. addTextLabels (Some measureText) fullName radius = Inr lines \<and> ?ok lines"
  proof (cases "length words = 1")
    case True
    obtain p where p: "processWordForFit (Some measureText) (words ! 0) mw fs radius False = Inr p"
      using processWordForFit_total by blast
    have "addTextLabels (Some measureText) fullName radius = Inr [p]"
      using True p by (simp add: addTextLabels_def Let_def words_def fs_def mw_def)
    moreover have "?ok [p]" using True by simp
    ultimately show ?thesis by blast
  next
    case False
    obtain greedy where g: "placeWords (Some measureText) mw fs radius words [] = Inr greedy"
      using placeWords_total by blast
    have len: "length greedy \<le> 2" using placeWords_length [OF g] by simp
    have "\<forall>l \<in> set (butlast greedy). \<not> str_includes l ''...'' \<and> l \<noteq> ''''"
      using placeWords_butlast [OF g] by simp
    then have early: "\<forall>i. Suc i < length greedy \<longrightarrow> \<not> str_includes (greedy ! i) ''...'' \<and> greedy ! i \<noteq> ''''"
      using nth_in_butlast by blast
    define cond where "cond \<longleftrightarrow> length words > length greedy \<and> length greedy = 2
             \<and> \<not> str_includes (greedy ! (length greedy - 1)) ''...''"
    have unf: "addTextLabels (Some measureText) fullName radius =
        (if cond then
           bindE (getTextWidth (Some measureText) (greedy ! (length greedy - 1) @ ''...'') fs) (\<lambda>w.
             if js_le w mw
             then Inr (greedy[length greedy - 1 := greedy ! (length greedy - 1) @ ''...''])
             else bindE (processWordForFit (Some measureText) (greedy ! (length greedy - 1)) mw fs radius True)
                   (\<lambda>t. Inr (greedy[length greedy - 1 := t])))
         else Inr greedy)"
      using False g
      unfolding addTextLabels_def Let_def words_def [symmetric] fs_def [symmetric] mw_def [symmetric] cond_def
      by (simp split del: if_split cong: if_weak_cong)
    show ?thesis
    proof (cases cond)
      case noend: False
      then have res: "addTextLabels (Some measureText) fullName radius = Inr greedy"
        unfolding unf by simp
      have "?ok greedy"
      proof (intro conjI impI)
        show "length greedy \<le> 2" by (rule len)
        show "\<forall>i. Suc i < length greedy \<longrightarrow> \<not> str_includes (greedy ! i) ''...'' \<and> greedy ! i \<noteq> ''''"
          by (rule early)
        assume a: "2 < length words \<and> length greedy = 2"
        then obtain p1 p2 where s: "greedy = [p1, p2]"
          "processWordForFit (Some measureText) (words ! 1) mw fs radius False = Inr p2"
          using placeWords_two [OF g] by blast
        with noend a have "str_includes p2 ''...''" by (simp add: cond_def)
        with s show "\<exists>p2. processWordForFit (Some measureText) (words ! 1) mw fs radius False = Inr p2 \<and>
          (if str_includes p2 ''...'' then greedy ! 1 = p2
           else if js_le (Finite (measureText (p2 @ ''...'') fs)) mw then greedy ! 1 = p2 @ ''...''
           else processWordForFit (Some measureText) p2 mw fs radius True = Inr (greedy ! 1))"
          by simp
      qed
      with res show ?thesis by blast
    next
      case ending: True
      then have len2: "length greedy = 2" by (simp add: cond_def)
      then obtain p1 p2 where s: "greedy = [p1, p2]"
          "processWordForFit (Some measureText) (words ! 1) mw fs radius False = Inr p2"
        using placeWords_two [OF g] by blast
      from ending s have nin: "\<not> str_includes p2 ''...''" by (simp add: cond_def)
      from early s have p1ok: "\<not> str_includes p1 ''...'' \<and> p1 \<noteq> ''''" by auto
      obtain t where t: "processWordForFit (Some measureText) p2 mw fs radius True = Inr t"
        using processWordForFit_total by blast
      define final where "final = (if js_le (Finite (measureText (p2 @ ''...'') fs)) mw then [p1, p2 @ ''...''] else [p1, t])"
      have res: "addTextLabels (Some measureText) fullName radius = Inr final"
        unfolding unf using ending s t by (simp add: final_def)
      have "?ok final"
        using s nin p1ok t by (auto simp: final_def)
      with res show ?thesis by blast
    qed
  qed
  then show ?thesis unfolding words_def fs_def mw_def .
qed

text \<open>Three words, two lines, and the second line with its three dots appended.\<close>

theorem addTextLabels_two_lines_witness:
  "2 < length (splitSpace ''a b c'') \<and>
   (\<exists>lines. addTextLabels (Some fixedPitch) ''a b c'' (Finite 20) = Inr lines \<and> length lines = 2 \<and>
      lines ! 0 = ''a'' \<and> lines ! 1 = ''b...'')"
proof -
  have l: "addTextLabels (Some fixedPitch) ''a b c'' (Finite 20) = Inr [''a'', ''b...'']"
    by (simp add: addTextLabels_def processWordForFit_def fixedPitch_def fontPx_def Let_def)
  from addTextLabels_two_lines [of fixedPitch "''a b c''" "Finite 20"]
  obtain lines where a: "addTextLabels (Some fixedPitch) ''a b c'' (Finite 20) = Inr lines"
    and b: "length lines \<le> 2" by blast
  from a l have "lines = [''a'', ''b...'']" by simp
  with a b show ?thesis by simp
qed

text \<open>
  Claim C6 as stated fails twice. A word cut to its first character and two dots does not
  contain three dots, so the placement goes on to the next word (\<open>Abc Def\<close> in a circle of radius
  6). And a second line that the placement itself cut is left alone although a word remains:
  it is neither extended by three dots nor the forced truncation of itself, which under a
  proportional font is a different string.
\<close>

theorem addTextLabels_counterexample:
  "processWordForFit (Some fixedPitch) ''Abc'' (js_mul (Finite 6) (Finite 1.6))
     (Math_max (Finite 8) (js_div (Finite 6) (Finite 4))) (Finite 6) False = Inr ''A..'' \<and>
   addTextLabels (Some fixedPitch) ''Abc Def'' (Finite 6) = Inr [''A..'', ''D..''] \<and>
   splitSpace ''x abcdefghi y'' = [''x'', ''abcdefghi'', ''y''] \<and>
   addTextLabels (Some narrowDots) ''x abcdefghi y'' (Finite 20) = Inr [''x'', ''abcdefg...''] \<and>
   \<not> js_le (Finite (narrowDots (''abcdefg...'' @ ''...'')
             (Math_max (Finite 8) (js_div (Finite 20) (Finite 4)))))
        (js_mul (Finite 20) (Finite 1.6)) \<and>
   processWordForFit (Some narrowDots) ''abcdefg...'' (js_mul (Finite 20) (Finite 1.6))
     (Math_max (Finite 8) (js_div (Finite 20) (Finite 4))) (Finite 20) True
     = Inr ''abcdefg....''"
  by (simp add: addTextLabels_def processWordForFit_def fixedPitch_def narrowDots_def fontPx_def Let_def)

section \<open>Stroke widths on the two paths\<close>

text \<open>
  Claim C9 at a container of 1000 by 1000: \<open>render\<close> passes the pack's size (1200 by 800) to
  \<open>drawNodes\<close>, so the initial stroke width is 0.8 (1.6 for a region circle), while \<open>resize\<close>
  computes 1 (2 for a region circle) from the container's smaller side.
\<close>

theorem strokeWidth_render_resize:
  "render_strokeWidth 1000 1000 False = 4 / 5 \<and> resize_strokeWidth 1000 1000 False = 1 \<and>
   render_strokeWidth 1000 1000 True = 8 / 5 \<and> resize_strokeWidth 1000 1000 True = 2"
  by (simp add: render_strokeWidth_def resize_strokeWidth_def drawNodes_strokeWidth_def Let_def)


section \<open>The optimisation loop\<close>

lemma sqrt_90000: "sqrt 90000 = 300"
  by (rule real_sqrt_unique) simp_all

lemmas eval_defs = mkRegion_def mkNode_def quadrants_def jsOr_def quadrantBounds_def Let_def
  iterationBody_def constrainRegion_def pairForce_def forceStrength_def

lemma clamp_cases:
  fixes lo hi v :: real
  shows "if lo \<le> hi then lo \<le> max lo (min hi v) \<and> max lo (min hi v) \<le> hi
         else max lo (min hi v) = lo"
  by auto

lemma constrainRegion_Inr:
  "constrainRegion qb forces region positions = Inr (p, m) \<Longrightarrow>
   \<exists>q vx vy. region_quadrant region = Some q \<and>
     pos_x p = max (minX (qb q) + (region_radius region + 5))
                   (min (maxX (qb q) - (region_radius region + 5)) vx) \<and>
     pos_y p = max (minY (qb q) + (region_radius region + 5))
                   (min (maxY (qb q) - (region_radius region + 5)) vy)"
  by (auto simp: constrainRegion_def Let_def split: option.splits)

lemma constrainRegion_clamped:
  "constrainRegion qb forces region positions = Inr (p, m) \<Longrightarrow>
   \<exists>q. region_quadrant region = Some q \<and>
     (if minX (qb q) + (region_radius region + 5) \<le> maxX (qb q) - (region_radius region + 5)
      then minX (qb q) + (region_radius region + 5) \<le> pos_x p \<and>
           pos_x p \<le> maxX (qb q) - (region_radius region + 5)
      else pos_x p = minX (qb q) + (region_radius region + 5)) \<and>
     (if minY (qb q) + (region_radius region + 5) \<le> maxY (qb q) - (region_radius region + 5)
      then minY (qb q) + (region_radius region + 5) \<le> pos_y p \<and>
           pos_y p \<le> maxY (qb q) - (region_radius region + 5)
      else pos_y p = minY (qb q) + (region_radius region + 5))"
proof -
  assume "constrainRegion qb forces region positions = Inr (p, m)"
  from constrainRegion_Inr [OF this] obtain q vx vy where
    q: "region_quadrant region = Some q"
    and x: "pos_x p = max (minX (qb q) + (region_radius region + 5))
                   (min (maxX (qb q) - (region_radius region + 5)) vx)"
    and y: "pos_y p = max (minY (qb q) + (region_radius region + 5))
                   (min (maxY (qb q) - (region_radius region + 5)) vy)"
    by blast
  note cx = clamp_cases [of "minX (qb q) + (region_radius region + 5)"
      "maxX (qb q) - (region_radius region + 5)" vx]
  note cy = clamp_cases [of "minY (qb q) + (region_radius region + 5)"
      "maxY (qb q) - (region_radius region + 5)" vy]
  from q cx cy show ?thesis unfolding x [symmetric] y [symmetric] by blast
qed

lemma applyForces_Cons_Inr:
  "applyForces qb forces (region # rest) positions t = Inr res \<Longrightarrow>
   \<exists>p m. constrainRegion qb forces region positions = Inr (p, m) \<and>
         applyForces qb forces rest (positions(region_name region \<mapsto> p)) (t + m) = Inr res"
  by (auto simp: bindE_eq_Inr)

lemma applyForces_other:
  "applyForces qb forces rs positions t = Inr (positions1, t1) \<Longrightarrow>
   n \<notin> region_name ` set rs \<Longrightarrow> positions1 n = positions n"
proof (induction rs arbitrary: positions t)
  case Nil
  then show ?case by simp
next
  case (Cons region rest)
  from applyForces_Cons_Inr [OF Cons.prems(1)] obtain p m where
    "applyForces qb forces rest (positions(region_name region \<mapsto> p)) (t + m) = Inr (positions1, t1)"
    by blast
  from Cons.IH [OF this] Cons.prems(2) show ?case by simp
qed

lemma applyForces_last_clamped:
  "applyForces qb forces (pre @ region # post) positions t = Inr (positions1, t1) \<Longrightarrow>
   region_name region \<notin> region_name ` set post \<Longrightarrow>
   \<exists>q p. region_quadrant region = Some q \<and> positions1 (region_name region) = Some p \<and>
     (if minX (qb q) + (region_radius region + 5) \<le> maxX (qb q) - (region_radius region + 5)
      then minX (qb q) + (region_radius region + 5) \<le> pos_x p \<and>
           pos_x p \<le> maxX (qb q) - (region_radius region + 5)
      else pos_x p = minX (qb q) + (region_radius region + 5)) \<and>
     (if minY (qb q) + (region_radius region + 5) \<le> maxY (qb q) - (region_radius region + 5)
      then minY (qb q) + (region_radius region + 5) \<le> pos_y p \<and>
           pos_y p \<le> maxY (qb q) - (region_radius region + 5)
      else pos_y p = minY (qb q) + (region_radius region + 5))"
proof (induction pre arbitrary: positions t)
  case Nil
  then have "applyForces qb forces (region # post) positions t = Inr (positions1, t1)" by simp
  from applyForces_Cons_Inr [OF this] obtain p m where
    c: "constrainRegion qb forces region positions = Inr (p, m)"
    and rest: "applyForces qb forces post (positions(region_name region \<mapsto> p)) (t + m)
                 = Inr (positions1, t1)"
    by blast
  from applyForces_other [OF rest Nil(2)]
  have "positions1 (region_name region) = Some p" by simp
  with constrainRegion_clamped [OF c] show ?case by blast
next
  case (Cons r0 pre)
  then have "applyForces qb forces (r0 # (pre @ region # post)) positions t = Inr (positions1, t1)"
    by simp
  from applyForces_Cons_Inr [OF this] obtain p m where
    "applyForces qb forces (pre @ region # post) (positions(region_name r0 \<mapsto> p)) (t + m)
       = Inr (positions1, t1)"
    by blast
  from Cons.IH [OF this Cons.prems(2)] show ?case .
qed

lemma optimiseLoop_trace:
  "optimiseLoop qb regions iteration positions = Inr result \<Longrightarrow> iteration < maxIterations \<Longrightarrow>
   \<exists>k before totalMovement.
     iteration + k < maxIterations \<and>
     passesBefore qb regions k positions = Some before \<and>
     iterationBody qb regions before = Inr (result, totalMovement) \<and>
     (totalMovement < 1 \<or> Suc (iteration + k) = maxIterations)"
proof (induction qb regions iteration positions rule: optimiseLoop.induct)
  case (1 qb regions iteration positions)
  from "1.prems" obtain positions1 tm where
    body: "iterationBody qb regions positions = Inr (positions1, tm)"
    and rest: "(if tm < 1 then Inr positions1
                else optimiseLoop qb regions (iteration + 1) positions1) = Inr result"
    by (subst (asm) optimiseLoop.simps) (auto simp: bindE_eq_Inr)
  show ?case
  proof (cases "tm < 1")
    case True
    with rest have "result = positions1" by simp
    with body True "1.prems"(2) have
      "iteration + 0 < maxIterations \<and> passesBefore qb regions 0 positions = Some positions \<and>
       iterationBody qb regions positions = Inr (result, tm) \<and>
       (tm < 1 \<or> Suc (iteration + 0) = maxIterations)" by simp
    then show ?thesis by blast
  next
    case False
    with rest have rec: "optimiseLoop qb regions (iteration + 1) positions1 = Inr result" by simp
    show ?thesis
    proof (cases "iteration + 1 < maxIterations")
      case True
      from "1.IH" [OF "1.prems"(2) False rec True]
      obtain k before t where k: "iteration + 1 + k < maxIterations"
        "passesBefore qb regions k positions1 = Some before"
        "iterationBody qb regions before = Inr (result, t)"
        "t < 1 \<or> Suc (iteration + 1 + k) = maxIterations"
        by blast
      have "passesBefore qb regions (Suc k) positions = Some before"
        using body False k(2) by simp
      with k have "iteration + Suc k < maxIterations \<and>
        passesBefore qb regions (Suc k) positions = Some before \<and>
        iterationBody qb regions before = Inr (result, t) \<and>
        (t < 1 \<or> Suc (iteration + Suc k) = maxIterations)" by simp
      then show ?thesis by blast
    next
      case last: False
      with rec have "result = positions1" by (subst (asm) optimiseLoop.simps) simp
      with body last "1.prems"(2) have
        "iteration + 0 < maxIterations \<and> passesBefore qb regions 0 positions = Some positions \<and>
         iterationBody qb regions positions = Inr (result, tm) \<and>
         (tm < 1 \<or> Suc (iteration + 0) = maxIterations)" by auto
      then show ?thesis by blast
    qed
  qed
qed

lemma iterationBody_applyForces:
  "iterationBody qb regions positions = Inr (positions1, t) \<Longrightarrow>
   \<exists>forces. applyForces qb forces regions positions 0 = Inr (positions1, t)"
  by (auto simp: iterationBody_def bindE_eq_Inr)

lemma calculateOptimalPositions_last_pass:
  assumes "calculateOptimalPositions regionNodes packWidth packHeight quads = Inr positions"
  shows "\<exists>k before totalMovement.
     k < maxIterations \<and>
     iterationBody (quadrantBounds packWidth packHeight) (map (mkRegion quads) regionNodes) before
       = Inr (positions, totalMovement) \<and>
     (totalMovement < 1 \<or> k + 1 = maxIterations)"
proof -
  from assms obtain positions0 where
    "optimiseLoop (quadrantBounds packWidth packHeight) (map (mkRegion quads) regionNodes) 0 positions0
       = Inr positions"
    by (auto simp: calculateOptimalPositions_def Let_def bindE_eq_Inr)
  from optimiseLoop_trace [OF this] show ?thesis by (auto simp: maxIterations_def)
qed

text \<open>
  The positions returned are clamped: for a region circle whose name no later region circle
  has, each coordinate lies in the interval of its quadrant inset by radius + padding when
  that interval is not empty, and is the lower end \<open>min + radius + 5\<close> when it is empty.
\<close>

lemma calculateOptimalPositions_clamped:
  assumes ret: "calculateOptimalPositions regionNodes packWidth packHeight quads = Inr positions"
    and dist: "distinct (map (\<lambda>n. name (node_data n)) regionNodes)"
    and mem: "node \<in> set regionNodes"
  shows "\<exists>q p. quads (name (node_data node)) = Some q \<and>
           positions (name (node_data node)) = Some p \<and>
           (if minX (quadrantBounds packWidth packHeight q) + (jsOr (node_r node) 0 + 5)
                 \<le> maxX (quadrantBounds packWidth packHeight q) - (jsOr (node_r node) 0 + 5)
            then minX (quadrantBounds packWidth packHeight q) + (jsOr (node_r node) 0 + 5) \<le> pos_x p \<and>
                 pos_x p \<le> maxX (quadrantBounds packWidth packHeight q) - (jsOr (node_r node) 0 + 5)
            else pos_x p = minX (quadrantBounds packWidth packHeight q) + (jsOr (node_r node) 0 + 5)) \<and>
           (if minY (quadrantBounds packWidth packHeight q) + (jsOr (node_r node) 0 + 5)
                 \<le> maxY (quadrantBounds packWidth packHeight q) - (jsOr (node_r node) 0 + 5)
            then minY (quadrantBounds packWidth packHeight q) + (jsOr (node_r node) 0 + 5) \<le> pos_y p \<and>
                 pos_y p \<le> maxY (quadrantBounds packWidth packHeight q) - (jsOr (node_r node) 0 + 5)
            else pos_y p = minY (quadrantBounds packWidth packHeight q) + (jsOr (node_r node) 0 + 5))"
proof -
  let ?qb = "quadrantBounds packWidth packHeight"
  let ?regions = "map (mkRegion quads) regionNodes"
  from calculateOptimalPositions_last_pass [OF ret] obtain before t where
    "iterationBody ?qb ?regions before = Inr (positions, t)" by blast
  from iterationBody_applyForces [OF this] obtain forces where
    ap: "applyForces ?qb forces ?regions before 0 = Inr (positions, t)" by blast
  from mem obtain pre post where split: "regionNodes = pre @ node # post"
    by (auto dest: split_list)
  with dist have "name (node_data node) \<notin> (\<lambda>n. name (node_data n)) ` set post" by auto
  then have notin: "region_name (mkRegion quads node) \<notin> region_name ` set (map (mkRegion quads) post)"
    by (auto simp: mkRegion_def)
  from ap split have
    "applyForces ?qb forces (map (mkRegion quads) pre @ mkRegion quads node # map (mkRegion quads) post)
       before 0 = Inr (positions, t)" by simp
  note l = applyForces_last_clamped [OF this notin]
  have rn: "region_name (mkRegion quads node) = name (node_data node)"
    and rr: "region_radius (mkRegion quads node) = jsOr (node_r node) 0"
    and rq: "region_quadrant (mkRegion quads node) = quads (name (node_data node))"
    by (simp_all add: mkRegion_def)
  from l show ?thesis unfolding rn rr rq .
qed

text \<open>
  Claim C3, amended. When \<open>calculateOptimalPositions\<close> returns, the positions are those of the
  last pass of the loop body that ran, after \<open>k < 50\<close> earlier passes that each moved the
  circles by at least 1 in total; and either that last pass moved them by less than 1 in
  total (the sum over the region circles of \<open>|dx| + |dy|\<close> after clamping), or it was the 50th
  pass. Nothing is said of the distances between the centres.
\<close>

theorem calculateOptimalPositions_exit:
  assumes "calculateOptimalPositions regionNodes packWidth packHeight quads = Inr positions"
  shows "\<exists>start k before totalMovement.
     initPositions (quadrantBounds packWidth packHeight) (map (mkRegion quads) regionNodes) Map.empty
       = Inr start \<and>
     k < maxIterations \<and>
     passesBefore (quadrantBounds packWidth packHeight) (map (mkRegion quads) regionNodes) k start
       = Some before \<and>
     iterationBody (quadrantBounds packWidth packHeight) (map (mkRegion quads) regionNodes) before
       = Inr (positions, totalMovement) \<and>
     (totalMovement < 1 \<or> Suc k = maxIterations)"
proof -
  from assms obtain start where
    s: "initPositions (quadrantBounds packWidth packHeight) (map (mkRegion quads) regionNodes) Map.empty
          = Inr start"
    and l: "optimiseLoop (quadrantBounds packWidth packHeight) (map (mkRegion quads) regionNodes) 0 start
       = Inr positions"
    by (auto simp: calculateOptimalPositions_def Let_def bindE_eq_Inr)
  have "0 < maxIterations" by (simp add: maxIterations_def)
  from optimiseLoop_trace [OF l this] s show ?thesis by auto
qed

lemma ex_ns_body1:
  "iterationBody (quadrantBounds 800 600)
     [\<lparr>region_name = ''Northern Europe'', region_radius = 140, region_quadrant = Some Top\<rparr>,
      \<lparr>region_name = ''Southern Europe'', region_radius = 140, region_quadrant = Some Bottom\<rparr>]
     [''Northern Europe'' \<mapsto> \<lparr>pos_x = 400, pos_y = 150\<rparr>,
      ''Southern Europe'' \<mapsto> \<lparr>pos_x = 400, pos_y = 450\<rparr>]
   = Inr ([''Northern Europe'' \<mapsto> \<lparr>pos_x = 400, pos_y = 165\<rparr>,
           ''Southern Europe'' \<mapsto> \<lparr>pos_x = 400, pos_y = 465\<rparr>], 30)"
  by (simp add: eval_defs sqrt_90000)

lemma ex_ns_body2:
  "iterationBody (quadrantBounds 800 600)
     [\<lparr>region_name = ''Northern Europe'', region_radius = 140, region_quadrant = Some Top\<rparr>,
      \<lparr>region_name = ''Southern Europe'', region_radius = 140, region_quadrant = Some Bottom\<rparr>]
     [''Northern Europe'' \<mapsto> \<lparr>pos_x = 400, pos_y = 165\<rparr>,
      ''Southern Europe'' \<mapsto> \<lparr>pos_x = 400, pos_y = 465\<rparr>]
   = Inr ([''Northern Europe'' \<mapsto> \<lparr>pos_x = 400, pos_y = 165\<rparr>,
           ''Southern Europe'' \<mapsto> \<lparr>pos_x = 400, pos_y = 465\<rparr>], 0)"
  by (simp add: eval_defs sqrt_90000)

lemma ex_ns:
  "calculateOptimalPositions
     [mkNode ''Northern Europe'' [0] 400 160 140, mkNode ''Southern Europe'' [0] 400 440 140]
     800 600 quadrants
   = Inr [''Northern Europe'' \<mapsto> \<lparr>pos_x = 400, pos_y = 165\<rparr>,
          ''Southern Europe'' \<mapsto> \<lparr>pos_x = 400, pos_y = 465\<rparr>]"
  apply (simp add: calculateOptimalPositions_def mkRegion_def mkNode_def quadrants_def jsOr_def Let_def)
  apply (simp add: quadrantBounds_def [of _ _ Top] quadrantBounds_def [of _ _ Bottom] Let_def)
  apply (subst optimiseLoop.simps)
  apply (simp add: maxIterations_def ex_ns_body1)
  apply (subst optimiseLoop.simps)
  apply (simp add: maxIterations_def ex_ns_body2)
  done

text \<open>The same two circles with radius 140: the loop is left by its \<open>break\<close>.\<close>

theorem calculateOptimalPositions_exit_witness:
  "\<exists>start k before totalMovement.
     initPositions (quadrantBounds 800 600)
       (map (mkRegion quadrants)
          [mkNode ''Northern Europe'' [0] 400 160 140, mkNode ''Southern Europe'' [0] 400 440 140])
       Map.empty = Inr start \<and>
     k < maxIterations \<and>
     passesBefore (quadrantBounds 800 600)
       (map (mkRegion quadrants)
          [mkNode ''Northern Europe'' [0] 400 160 140, mkNode ''Southern Europe'' [0] 400 440 140])
       k start = Some before \<and>
     iterationBody (quadrantBounds 800 600)
       (map (mkRegion quadrants)
          [mkNode ''Northern Europe'' [0] 400 160 140, mkNode ''Southern Europe'' [0] 400 440 140])
       before
       = Inr ([''Northern Europe'' \<mapsto> \<lparr>pos_x = 400, pos_y = 165\<rparr>,
               ''Southern Europe'' \<mapsto> \<lparr>pos_x = 400, pos_y = 465\<rparr>], totalMovement) \<and>
     (totalMovement < 1 \<or> Suc k = maxIterations)"
  by (rule calculateOptimalPositions_exit [OF ex_ns])

text \<open>
  Claim C3 as stated fails: the northern and the southern circle of radius 140 are pushed
  apart by 10 each in the first pass and clamped back to a distance of 300; the second pass
  moves nothing, so the loop ends at iteration 1 with the centres closer than
  \<open>140 + 140 + 30\<close>.
\<close>

theorem calculateOptimalPositions_separation_counterexample:
  "calculateOptimalPositions
     [mkNode ''Northern Europe'' [0] 400 160 140, mkNode ''Southern Europe'' [0] 400 440 140]
     800 600 quadrants
   = Inr [''Northern Europe'' \<mapsto> \<lparr>pos_x = 400, pos_y = 165\<rparr>,
          ''Southern Europe'' \<mapsto> \<lparr>pos_x = 400, pos_y = 465\<rparr>] \<and>
   iterationBody (quadrantBounds 800 600)
     (map (mkRegion quadrants)
        [mkNode ''Northern Europe'' [0] 400 160 140, mkNode ''Southern Europe'' [0] 400 440 140])
     [''Northern Europe'' \<mapsto> \<lparr>pos_x = 400, pos_y = 150\<rparr>,
      ''Southern Europe'' \<mapsto> \<lparr>pos_x = 400, pos_y = 450\<rparr>]
   = Inr ([''Northern Europe'' \<mapsto> \<lparr>pos_x = 400, pos_y = 165\<rparr>,
           ''Southern Europe'' \<mapsto> \<lparr>pos_x = 400, pos_y = 465\<rparr>], 30) \<and>
   iterationBody (quadrantBounds 800 600)
     (map (mkRegion quadrants)
        [mkNode ''Northern Europe'' [0] 400 160 140, mkNode ''Southern Europe'' [0] 400 440 140])
     [''Northern Europe'' \<mapsto> \<lparr>pos_x = 400, pos_y = 165\<rparr>,
      ''Southern Europe'' \<mapsto> \<lparr>pos_x = 400, pos_y = 465\<rparr>]
   = Inr ([''Northern Europe'' \<mapsto> \<lparr>pos_x = 400, pos_y = 165\<rparr>,
           ''Southern Europe'' \<mapsto> \<lparr>pos_x = 400, pos_y = 465\<rparr>], 0) \<and>
   sqrt ((400 - 400) * (400 - 400) + (165 - 465) * (165 - 465)) < 140 + 140 + 30"
proof -
  have regs: "map (mkRegion quadrants)
        [mkNode ''Northern Europe'' [0] 400 160 140, mkNode ''Southern Europe'' [0] 400 440 140]
    = [\<lparr>region_name = ''Northern Europe'', region_radius = 140, region_quadrant = Some Top\<rparr>,
       \<lparr>region_name = ''Southern Europe'', region_radius = 140, region_quadrant = Some Bottom\<rparr>]"
    by (simp add: mkRegion_def mkNode_def quadrants_def jsOr_def)
  show ?thesis
    unfolding regs by (simp add: ex_ns ex_ns_body1 ex_ns_body2 sqrt_90000)
qed


section \<open>What positioning changes\<close>

lemma walkParents_set: "walkParents ps a \<longleftrightarrow> a \<in> set ps"
  by (induction ps) auto

lemma moveChildren_Cons_Inr:
  "moveChildren newPos original (c # rest) nodes = Inr res \<Longrightarrow>
   \<exists>nodes1. moveChildren newPos original rest nodes1 = Inr res \<and>
     (nodes1 = nodes \<or>
      (\<exists>cx cy orig. node_x (nodes ! c) = Some cx \<and> node_y (nodes ! c) = Some cy \<and>
         original = Some orig \<and>
         nodes1 = nodes[c := (nodes ! c)\<lparr>node_x := Some (pos_x newPos + (cx - pos_x orig)),
                                         node_y := Some (pos_y newPos + (cy - pos_y orig))\<rparr>]))"
  by (auto simp: Let_def split: option.splits)

lemma update_xy_fields:
  "node_r ((nodes[c := (nodes ! c)\<lparr>node_x := vx, node_y := vy\<rparr>]) ! j) = node_r (nodes ! j) \<and>
   node_depth ((nodes[c := (nodes ! c)\<lparr>node_x := vx, node_y := vy\<rparr>]) ! j) = node_depth (nodes ! j) \<and>
   node_parents ((nodes[c := (nodes ! c)\<lparr>node_x := vx, node_y := vy\<rparr>]) ! j) = node_parents (nodes ! j) \<and>
   node_data ((nodes[c := (nodes ! c)\<lparr>node_x := vx, node_y := vy\<rparr>]) ! j) = node_data (nodes ! j)"
proof (cases "c = j \<and> c < length nodes")
  case True
  then show ?thesis by simp
next
  case False
  have "(nodes[c := (nodes ! c)\<lparr>node_x := vx, node_y := vy\<rparr>]) ! j = nodes ! j"
  proof (cases "c = j")
    case True
    with False have "length nodes \<le> c" by simp
    then show ?thesis by (simp add: list_update_beyond)
  next
    case False
    then show ?thesis by simp
  qed
  then show ?thesis by simp
qed

lemma moveChildren_frame:
  "moveChildren newPos original cs nodes = Inr res \<Longrightarrow>
   length res = length nodes \<and>
   (\<forall>j. node_r (res ! j) = node_r (nodes ! j) \<and> node_depth (res ! j) = node_depth (nodes ! j) \<and>
        node_parents (res ! j) = node_parents (nodes ! j) \<and> node_data (res ! j) = node_data (nodes ! j)) \<and>
   (\<forall>j. j \<notin> set cs \<longrightarrow> res ! j = nodes ! j)"
proof (induction cs arbitrary: nodes)
  case Nil
  then show ?case by simp
next
  case (Cons c rest)
  from moveChildren_Cons_Inr [OF Cons.prems] obtain nodes1 where
    rec: "moveChildren newPos original rest nodes1 = Inr res"
    and alt: "nodes1 = nodes \<or>
      (\<exists>cx cy orig. node_x (nodes ! c) = Some cx \<and> node_y (nodes ! c) = Some cy \<and>
         original = Some orig \<and>
         nodes1 = nodes[c := (nodes ! c)\<lparr>node_x := Some (pos_x newPos + (cx - pos_x orig)),
                                         node_y := Some (pos_y newPos + (cy - pos_y orig))\<rparr>])"
    by blast
  note ih = Cons.IH [OF rec]
  from alt have step: "length nodes1 = length nodes \<and>
     (\<forall>j. node_r (nodes1 ! j) = node_r (nodes ! j) \<and> node_depth (nodes1 ! j) = node_depth (nodes ! j) \<and>
        node_parents (nodes1 ! j) = node_parents (nodes ! j) \<and> node_data (nodes1 ! j) = node_data (nodes ! j)) \<and>
     (\<forall>j. j \<noteq> c \<longrightarrow> nodes1 ! j = nodes ! j)"
  proof
    assume "nodes1 = nodes"
    then show ?thesis by simp
  next
    assume "\<exists>cx cy orig. node_x (nodes ! c) = Some cx \<and> node_y (nodes ! c) = Some cy \<and>
         original = Some orig \<and>
         nodes1 = nodes[c := (nodes ! c)\<lparr>node_x := Some (pos_x newPos + (cx - pos_x orig)),
                                         node_y := Some (pos_y newPos + (cy - pos_y orig))\<rparr>]"
    then obtain vx vy where n1: "nodes1 = nodes[c := (nodes ! c)\<lparr>node_x := vx, node_y := vy\<rparr>]"
      by blast
    show ?thesis unfolding n1 using update_xy_fields [where nodes = nodes and c = c and vx = vx and vy = vy] by auto
  qed
  from ih step show ?case by auto
qed

lemma applyRegion_Inr:
  "applyRegion positions originalPositions i nodes = Inr res \<Longrightarrow>
   (res = nodes \<and> (name (node_data (nodes ! i)) = '''' \<or> positions (name (node_data (nodes ! i))) = None)) \<or>
   (\<exists>newPos. name (node_data (nodes ! i)) \<noteq> '''' \<and>
      positions (name (node_data (nodes ! i))) = Some newPos \<and>
      moveChildren newPos (originalPositions i)
        (filter (\<lambda>d. node_depth (nodes ! d) > 1 \<and> isDescendantOf (nodes ! d) i) [0..<length nodes])
        (nodes[i := (nodes ! i)\<lparr>node_x := Some (pos_x newPos), node_y := Some (pos_y newPos)\<rparr>])
      = Inr res)"
proof -
  have same: "\<And>vx vy. filter (\<lambda>d. node_depth ((nodes[i := (nodes ! i)\<lparr>node_x := vx, node_y := vy\<rparr>]) ! d) > 1
                     \<and> isDescendantOf ((nodes[i := (nodes ! i)\<lparr>node_x := vx, node_y := vy\<rparr>]) ! d) i)
                 [0..<length (nodes[i := (nodes ! i)\<lparr>node_x := vx, node_y := vy\<rparr>])]
       = filter (\<lambda>d. node_depth (nodes ! d) > 1 \<and> isDescendantOf (nodes ! d) i) [0..<length nodes]"
    using update_xy_fields [where nodes = nodes and c = i] by (simp add: isDescendantOf_def)
  assume "applyRegion positions originalPositions i nodes = Inr res"
  then show ?thesis
    unfolding applyRegion_def Let_def same
    by (auto split: if_splits option.splits)
qed

lemma applyRegion_frame:
  assumes "applyRegion positions originalPositions i nodes = Inr res"
  shows "length res = length nodes \<and>
   (\<forall>j. node_r (res ! j) = node_r (nodes ! j) \<and> node_depth (res ! j) = node_depth (nodes ! j) \<and>
        node_parents (res ! j) = node_parents (nodes ! j) \<and> node_data (res ! j) = node_data (nodes ! j)) \<and>
   (\<forall>j. j \<noteq> i \<and> \<not> (node_depth (nodes ! j) > 1 \<and> isDescendantOf (nodes ! j) i) \<longrightarrow> res ! j = nodes ! j)"
proof -
  from applyRegion_Inr [OF assms] show ?thesis
  proof
    assume "res = nodes \<and> (name (node_data (nodes ! i)) = '''' \<or> positions (name (node_data (nodes ! i))) = None)"
    then show ?thesis by simp
  next
    assume "\<exists>newPos. name (node_data (nodes ! i)) \<noteq> '''' \<and>
      positions (name (node_data (nodes ! i))) = Some newPos \<and>
      moveChildren newPos (originalPositions i)
        (filter (\<lambda>d. node_depth (nodes ! d) > 1 \<and> isDescendantOf (nodes ! d) i) [0..<length nodes])
        (nodes[i := (nodes ! i)\<lparr>node_x := Some (pos_x newPos), node_y := Some (pos_y newPos)\<rparr>])
      = Inr res"
    then obtain newPos where mc: "moveChildren newPos (originalPositions i)
        (filter (\<lambda>d. node_depth (nodes ! d) > 1 \<and> isDescendantOf (nodes ! d) i) [0..<length nodes])
        (nodes[i := (nodes ! i)\<lparr>node_x := Some (pos_x newPos), node_y := Some (pos_y newPos)\<rparr>])
      = Inr res" by blast
    let ?n1 = "nodes[i := (nodes ! i)\<lparr>node_x := Some (pos_x newPos), node_y := Some (pos_y newPos)\<rparr>]"
    note f = moveChildren_frame [OF mc]
    note u = update_xy_fields [where nodes = nodes and c = i and vx = "Some (pos_x newPos)" and vy = "Some (pos_y newPos)"]
    have len: "length res = length nodes" using f by simp
    have fields: "\<forall>j. node_r (res ! j) = node_r (nodes ! j) \<and> node_depth (res ! j) = node_depth (nodes ! j) \<and>
        node_parents (res ! j) = node_parents (nodes ! j) \<and> node_data (res ! j) = node_data (nodes ! j)"
      using f u by simp
    have other: "\<forall>j. j \<noteq> i \<and> \<not> (node_depth (nodes ! j) > 1 \<and> isDescendantOf (nodes ! j) i) \<longrightarrow> res ! j = nodes ! j"
    proof (intro allI impI)
      fix j assume j: "j \<noteq> i \<and> \<not> (node_depth (nodes ! j) > 1 \<and> isDescendantOf (nodes ! j) i)"
      then have "j \<notin> set (filter (\<lambda>d. node_depth (nodes ! d) > 1 \<and> isDescendantOf (nodes ! d) i) [0..<length nodes])"
        by auto
      with f have "res ! j = ?n1 ! j" by blast
      also have "\<dots> = nodes ! j" using j by simp
      finally show "res ! j = nodes ! j" .
    qed
    from len fields other show ?thesis by blast
  qed
qed

lemma applyRegions_frame:
  "applyRegions positions originalPositions rs nodes = Inr res \<Longrightarrow>
   length res = length nodes \<and>
   (\<forall>j. node_r (res ! j) = node_r (nodes ! j) \<and> node_depth (res ! j) = node_depth (nodes ! j) \<and>
        node_parents (res ! j) = node_parents (nodes ! j) \<and> node_data (res ! j) = node_data (nodes ! j)) \<and>
   (\<forall>j. j \<notin> set rs \<and> (\<forall>b \<in> set rs. \<not> (node_depth (nodes ! j) > 1 \<and> isDescendantOf (nodes ! j) b))
        \<longrightarrow> res ! j = nodes ! j)"
proof (induction rs arbitrary: nodes)
  case Nil
  then show ?case by simp
next
  case (Cons i rest)
  from Cons.prems obtain nodes1 where
    one: "applyRegion positions originalPositions i nodes = Inr nodes1"
    and rec: "applyRegions positions originalPositions rest nodes1 = Inr res"
    by (auto simp: bindE_eq_Inr)
  note f1 = applyRegion_frame [OF one]
  note ih = Cons.IH [OF rec]
  have len: "length res = length nodes" using f1 ih by simp
  have fields: "\<forall>j. node_r (res ! j) = node_r (nodes ! j) \<and> node_depth (res ! j) = node_depth (nodes ! j) \<and>
        node_parents (res ! j) = node_parents (nodes ! j) \<and> node_data (res ! j) = node_data (nodes ! j)"
    using f1 ih by simp
  have other: "\<forall>j. j \<notin> set (i # rest) \<and>
        (\<forall>b \<in> set (i # rest). \<not> (node_depth (nodes ! j) > 1 \<and> isDescendantOf (nodes ! j) b))
        \<longrightarrow> res ! j = nodes ! j"
  proof (intro allI impI)
    fix j assume j: "j \<notin> set (i # rest) \<and>
        (\<forall>b \<in> set (i # rest). \<not> (node_depth (nodes ! j) > 1 \<and> isDescendantOf (nodes ! j) b))"
    then have a: "nodes1 ! j = nodes ! j" using f1 by simp
    have "\<forall>b \<in> set rest. \<not> (node_depth (nodes1 ! j) > 1 \<and> isDescendantOf (nodes1 ! j) b)"
      using j a by simp
    moreover have "j \<notin> set rest" using j by simp
    ultimately have "res ! j = nodes1 ! j" using ih by blast
    with a show "res ! j = nodes ! j" by simp
  qed
  from len fields other show ?case by blast
qed

text \<open>
  Claim C8. When \<open>positionRegionCircles\<close> returns, the array has its length, every node has
  the radius, depth, parent chain and data it had, and a node that is neither a region
  circle (depth 1) nor a descendant of one has the coordinates it had: only \<open>x\<close> and \<open>y\<close> of
  region circles and their descendants are assigned.
\<close>

theorem positionRegionCircles_frame:
  assumes "positionRegionCircles packWidth packHeight nodes = Inr res"
  shows "length res = length nodes \<and>
   (\<forall>j. node_r (res ! j) = node_r (nodes ! j) \<and> node_depth (res ! j) = node_depth (nodes ! j) \<and>
        node_parents (res ! j) = node_parents (nodes ! j) \<and> node_data (res ! j) = node_data (nodes ! j)) \<and>
   (\<forall>j < length nodes.
        node_depth (nodes ! j) \<noteq> 1 \<and>
        \<not> (\<exists>a < length nodes. node_depth (nodes ! a) = 1 \<and> isDescendantOf (nodes ! j) a)
        \<longrightarrow> node_x (res ! j) = node_x (nodes ! j) \<and> node_y (res ! j) = node_y (nodes ! j))"
proof (cases "nodes = [] \<or> filter (\<lambda>d. node_depth (nodes ! d) = 1) [0..<length nodes] = []")
  case True
  with assms have "res = nodes" by (auto simp: positionRegionCircles_def Let_def split: if_splits)
  then show ?thesis by simp
next
  case False
  let ?rs = "filter (\<lambda>d. node_depth (nodes ! d) = 1) [0..<length nodes]"
  from assms False obtain positions originalPositions where
    "applyRegions positions originalPositions ?rs nodes = Inr res"
    by (auto simp: positionRegionCircles_def Let_def bindE_eq_Inr split: if_splits)
  note f = applyRegions_frame [OF this]
  have "\<forall>j < length nodes.
        node_depth (nodes ! j) \<noteq> 1 \<and>
        \<not> (\<exists>a < length nodes. node_depth (nodes ! a) = 1 \<and> isDescendantOf (nodes ! j) a)
        \<longrightarrow> res ! j = nodes ! j"
  proof (intro allI impI)
    fix j assume "j < length nodes" and j: "node_depth (nodes ! j) \<noteq> 1 \<and>
        \<not> (\<exists>a < length nodes. node_depth (nodes ! a) = 1 \<and> isDescendantOf (nodes ! j) a)"
    then have "j \<notin> set ?rs \<and> (\<forall>b \<in> set ?rs. \<not> (node_depth (nodes ! j) > 1 \<and> isDescendantOf (nodes ! j) b))"
      by auto
    with f show "res ! j = nodes ! j" by blast
  qed
  with f show ?thesis by simp
qed


section \<open>Where the descendants end up\<close>

lemma moveChildren_head_defined:
  "moveChildren newPos original (c # rest) nodes = Inr res \<Longrightarrow>
   node_x (nodes ! c) = Some cx \<Longrightarrow> node_y (nodes ! c) = Some cy \<Longrightarrow>
   \<exists>orig. original = Some orig \<and>
     moveChildren newPos original rest
       (nodes[c := (nodes ! c)\<lparr>node_x := Some (pos_x newPos + (cx - pos_x orig)),
                               node_y := Some (pos_y newPos + (cy - pos_y orig))\<rparr>]) = Inr res"
  by (auto simp: Let_def split: option.splits)

lemma moveChildren_moved:
  "moveChildren newPos original cs nodes = Inr res \<Longrightarrow> distinct cs \<Longrightarrow> c \<in> set cs \<Longrightarrow>
   c < length nodes \<Longrightarrow> node_x (nodes ! c) = Some cx \<Longrightarrow> node_y (nodes ! c) = Some cy \<Longrightarrow>
   \<exists>orig. original = Some orig \<and>
     node_x (res ! c) = Some (pos_x newPos + (cx - pos_x orig)) \<and>
     node_y (res ! c) = Some (pos_y newPos + (cy - pos_y orig))"
proof (induction cs arbitrary: nodes)
  case Nil
  then show ?case by simp
next
  case (Cons c0 rest)
  show ?case
  proof (cases "c = c0")
    case True
    from moveChildren_head_defined [OF Cons.prems(1)] True Cons.prems(5,6)
    obtain orig where o: "original = Some orig"
      and rec: "moveChildren newPos original rest
       (nodes[c := (nodes ! c)\<lparr>node_x := Some (pos_x newPos + (cx - pos_x orig)),
                               node_y := Some (pos_y newPos + (cy - pos_y orig))\<rparr>]) = Inr res"
      by blast
    from Cons.prems(2) True have "c \<notin> set rest" by simp
    with moveChildren_frame [OF rec] have
      "res ! c = (nodes[c := (nodes ! c)\<lparr>node_x := Some (pos_x newPos + (cx - pos_x orig)),
                               node_y := Some (pos_y newPos + (cy - pos_y orig))\<rparr>]) ! c"
      by blast
    with Cons.prems(4) o show ?thesis by simp
  next
    case False
    from moveChildren_Cons_Inr [OF Cons.prems(1)] obtain nodes1 where
      rec: "moveChildren newPos original rest nodes1 = Inr res"
      and alt: "nodes1 = nodes \<or>
        (\<exists>cx cy orig. node_x (nodes ! c0) = Some cx \<and> node_y (nodes ! c0) = Some cy \<and>
           original = Some orig \<and>
           nodes1 = nodes[c0 := (nodes ! c0)\<lparr>node_x := Some (pos_x newPos + (cx - pos_x orig)),
                                           node_y := Some (pos_y newPos + (cy - pos_y orig))\<rparr>])"
      by blast
    from alt False have same: "nodes1 ! c = nodes ! c \<and> length nodes1 = length nodes" by auto
    from Cons.prems(2,3) False have "distinct rest" "c \<in> set rest" by auto
    from Cons.IH [OF rec this] same Cons.prems(4,5,6) show ?thesis by simp
  qed
qed

lemma applyRegion_moved:
  assumes ap: "applyRegion positions originalPositions a nodes = Inr res"
    and nm: "name (node_data (nodes ! a)) \<noteq> ''''"
    and pos: "positions (name (node_data (nodes ! a))) = Some newPos"
    and a: "a < length nodes"
  shows "(node_depth (nodes ! a) \<le> 1 \<longrightarrow>
           node_x (res ! a) = Some (pos_x newPos) \<and> node_y (res ! a) = Some (pos_y newPos)) \<and>
         (\<forall>d cx cy. d < length nodes \<and> d \<noteq> a \<and> node_depth (nodes ! d) > 1 \<and>
            isDescendantOf (nodes ! d) a \<and> node_x (nodes ! d) = Some cx \<and> node_y (nodes ! d) = Some cy
            \<longrightarrow> (\<exists>orig. originalPositions a = Some orig \<and>
                   node_x (res ! d) = Some (pos_x newPos + (cx - pos_x orig)) \<and>
                   node_y (res ! d) = Some (pos_y newPos + (cy - pos_y orig))))"
proof -
  let ?cs = "filter (\<lambda>d. node_depth (nodes ! d) > 1 \<and> isDescendantOf (nodes ! d) a) [0..<length nodes]"
  let ?n1 = "nodes[a := (nodes ! a)\<lparr>node_x := Some (pos_x newPos), node_y := Some (pos_y newPos)\<rparr>]"
  from applyRegion_Inr [OF ap] nm pos have mc:
    "moveChildren newPos (originalPositions a) ?cs ?n1 = Inr res" by auto
  have first: "node_depth (nodes ! a) \<le> 1 \<longrightarrow>
           node_x (res ! a) = Some (pos_x newPos) \<and> node_y (res ! a) = Some (pos_y newPos)"
  proof
    assume "node_depth (nodes ! a) \<le> 1"
    then have "a \<notin> set ?cs" by simp
    with moveChildren_frame [OF mc] have "res ! a = ?n1 ! a" by blast
    with a show "node_x (res ! a) = Some (pos_x newPos) \<and> node_y (res ! a) = Some (pos_y newPos)"
      by simp
  qed
  have second: "\<forall>d cx cy. d < length nodes \<and> d \<noteq> a \<and> node_depth (nodes ! d) > 1 \<and>
            isDescendantOf (nodes ! d) a \<and> node_x (nodes ! d) = Some cx \<and> node_y (nodes ! d) = Some cy
            \<longrightarrow> (\<exists>orig. originalPositions a = Some orig \<and>
                   node_x (res ! d) = Some (pos_x newPos + (cx - pos_x orig)) \<and>
                   node_y (res ! d) = Some (pos_y newPos + (cy - pos_y orig)))"
  proof (intro allI impI)
    fix d cx cy
    assume d: "d < length nodes \<and> d \<noteq> a \<and> node_depth (nodes ! d) > 1 \<and>
            isDescendantOf (nodes ! d) a \<and> node_x (nodes ! d) = Some cx \<and> node_y (nodes ! d) = Some cy"
    then have mem: "d \<in> set ?cs" by simp
    have dist: "distinct ?cs" by simp
    from d have len: "d < length ?n1" by simp
    from d have x: "node_x (?n1 ! d) = Some cx" and y: "node_y (?n1 ! d) = Some cy" by simp_all
    from moveChildren_moved [OF mc dist mem len x y]
    show "\<exists>orig. originalPositions a = Some orig \<and>
                   node_x (res ! d) = Some (pos_x newPos + (cx - pos_x orig)) \<and>
                   node_y (res ! d) = Some (pos_y newPos + (cy - pos_y orig))" .
  qed
  from first second show ?thesis by blast
qed

lemma applyRegions_moved:
  "applyRegions positions originalPositions rs nodes = Inr res \<Longrightarrow>
   distinct rs \<Longrightarrow> a \<in> set rs \<Longrightarrow> \<forall>b \<in> set rs. node_depth (nodes ! b) = 1 \<Longrightarrow>
   a < length nodes \<Longrightarrow> d < length nodes \<Longrightarrow>
   name (node_data (nodes ! a)) \<noteq> '''' \<Longrightarrow>
   positions (name (node_data (nodes ! a))) = Some newPos \<Longrightarrow>
   node_depth (nodes ! d) > 1 \<Longrightarrow> isDescendantOf (nodes ! d) a \<Longrightarrow>
   \<forall>b \<in> set rs. b \<noteq> a \<longrightarrow> \<not> isDescendantOf (nodes ! d) b \<Longrightarrow>
   node_x (nodes ! d) = Some cx \<Longrightarrow> node_y (nodes ! d) = Some cy \<Longrightarrow>
   node_x (res ! a) = Some (pos_x newPos) \<and> node_y (res ! a) = Some (pos_y newPos) \<and>
   (\<exists>orig. originalPositions a = Some orig \<and>
      node_x (res ! d) = Some (pos_x newPos + (cx - pos_x orig)) \<and>
      node_y (res ! d) = Some (pos_y newPos + (cy - pos_y orig)))"
proof (induction rs arbitrary: nodes)
  case Nil
  then show ?case by simp
next
  case (Cons b rest)
  from Cons.prems(1) obtain nodes1 where
    one: "applyRegion positions originalPositions b nodes = Inr nodes1"
    and rec: "applyRegions positions originalPositions rest nodes1 = Inr res"
    by (auto simp: bindE_eq_Inr)
  note f1 = applyRegion_frame [OF one]
  note fr = applyRegions_frame [OF rec]
  from Cons.prems(3,4) have da: "node_depth (nodes ! a) = 1" by blast
  from Cons.prems(4,9) have dnotin: "d \<notin> set (b # rest)" by auto
  with Cons.prems(3) have dna: "d \<noteq> a" by auto
  show ?case
  proof (cases "b = a")
    case True
    note m = applyRegion_moved [OF one [unfolded True] Cons.prems(7,8,5)]
    from m da have a1: "node_x (nodes1 ! a) = Some (pos_x newPos) \<and> node_y (nodes1 ! a) = Some (pos_y newPos)"
      by simp
    from m Cons.prems(6,9,10,12,13) dna obtain orig where o: "originalPositions a = Some orig"
      and d1: "node_x (nodes1 ! d) = Some (pos_x newPos + (cx - pos_x orig))"
              "node_y (nodes1 ! d) = Some (pos_y newPos + (cy - pos_y orig))"
      by blast
    from Cons.prems(2) True have anr: "a \<notin> set rest" by simp
    have "\<forall>b' \<in> set rest. \<not> (node_depth (nodes1 ! a) > 1 \<and> isDescendantOf (nodes1 ! a) b')"
      using f1 da by simp
    with fr anr have ra: "res ! a = nodes1 ! a" by blast
    have "\<forall>b' \<in> set rest. \<not> (node_depth (nodes1 ! d) > 1 \<and> isDescendantOf (nodes1 ! d) b')"
    proof
      fix b' assume b': "b' \<in> set rest"
      with anr have "b' \<noteq> a" by auto
      with Cons.prems(11) b' have "\<not> isDescendantOf (nodes ! d) b'" by simp
      moreover have "node_parents (nodes1 ! d) = node_parents (nodes ! d)" using f1 by simp
      ultimately show "\<not> (node_depth (nodes1 ! d) > 1 \<and> isDescendantOf (nodes1 ! d) b')"
        by (simp add: isDescendantOf_def)
    qed
    moreover from dnotin have "d \<notin> set rest" by simp
    ultimately have rd: "res ! d = nodes1 ! d" using fr by blast
    from a1 d1 o ra rd show ?thesis by simp
  next
    case False
    from Cons.prems(4,9) have "d \<noteq> b" by auto
    moreover from Cons.prems(11) False have "\<not> isDescendantOf (nodes ! d) b" by simp
    ultimately have d1: "nodes1 ! d = nodes ! d" using f1 by simp
    from False da have a1: "nodes1 ! a = nodes ! a" using f1 by simp
    have len: "length nodes1 = length nodes" using f1 by simp
    from Cons.prems(3) False have amem: "a \<in> set rest" by auto
    from Cons.prems(2) have dist: "distinct rest" by simp
    have depths: "\<forall>b' \<in> set rest. node_depth (nodes1 ! b') = 1"
      using Cons.prems(4) f1 by simp
    have nodesc: "\<forall>b' \<in> set rest. b' \<noteq> a \<longrightarrow> \<not> isDescendantOf (nodes1 ! d) b'"
      using Cons.prems(11) d1 by simp
    from Cons.IH [OF rec dist amem depths] len a1 d1 nodesc Cons.prems(5-10,12,13)
    show ?thesis by simp
  qed
qed

lemma applyRegions_region_placed:
  "applyRegions positions originalPositions rs nodes = Inr res \<Longrightarrow>
   distinct rs \<Longrightarrow> a \<in> set rs \<Longrightarrow> \<forall>b \<in> set rs. node_depth (nodes ! b) = 1 \<Longrightarrow>
   a < length nodes \<Longrightarrow>
   name (node_data (nodes ! a)) \<noteq> '''' \<Longrightarrow>
   positions (name (node_data (nodes ! a))) = Some newPos \<Longrightarrow>
   node_x (res ! a) = Some (pos_x newPos) \<and> node_y (res ! a) = Some (pos_y newPos)"
proof (induction rs arbitrary: nodes)
  case Nil
  then show ?case by simp
next
  case (Cons b rest)
  from Cons.prems(1) obtain nodes1 where
    one: "applyRegion positions originalPositions b nodes = Inr nodes1"
    and rec: "applyRegions positions originalPositions rest nodes1 = Inr res"
    by (auto simp: bindE_eq_Inr)
  note f1 = applyRegion_frame [OF one]
  note fr = applyRegions_frame [OF rec]
  from Cons.prems(3,4) have da: "node_depth (nodes ! a) = 1" by blast
  show ?case
  proof (cases "b = a")
    case True
    note m = applyRegion_moved [OF one [unfolded True] Cons.prems(6,7,5)]
    from m da have a1: "node_x (nodes1 ! a) = Some (pos_x newPos) \<and> node_y (nodes1 ! a) = Some (pos_y newPos)"
      by simp
    from Cons.prems(2) True have anr: "a \<notin> set rest" by simp
    have "\<forall>b' \<in> set rest. \<not> (node_depth (nodes1 ! a) > 1 \<and> isDescendantOf (nodes1 ! a) b')"
      using f1 da by simp
    with fr anr have ra: "res ! a = nodes1 ! a" by blast
    from a1 ra show ?thesis by simp
  next
    case False
    from False da have a1: "nodes1 ! a = nodes ! a" using f1 by simp
    have len: "length nodes1 = length nodes" using f1 by simp
    from Cons.prems(3) False have amem: "a \<in> set rest" by auto
    from Cons.prems(2) have dist: "distinct rest" by simp
    have depths: "\<forall>b' \<in> set rest. node_depth (nodes1 ! b') = 1"
      using Cons.prems(4) f1 by simp
    from Cons.IH [OF rec dist amem depths] len a1 Cons.prems(5-7)
    show ?thesis by simp
  qed
qed

section \<open>Well-formed hierarchies\<close>

lemma wf_hierarchy_nth:
  "wf_hierarchy nodes \<Longrightarrow> i < length nodes \<Longrightarrow>
   node_depth (nodes ! i) = length (node_parents (nodes ! i)) \<and>
   (case node_parents (nodes ! i) of
      [] \<Rightarrow> True
    | p # ps \<Rightarrow> p < length nodes \<and> node_parents (nodes ! p) = ps)"
  by (simp add: wf_hierarchy_def list_all_length)

lemma chain_depths:
  "wf_hierarchy nodes \<Longrightarrow> i < length nodes \<Longrightarrow> node_parents (nodes ! i) = ps \<Longrightarrow>
   \<forall>k < length ps. ps ! k < length nodes \<and> node_depth (nodes ! (ps ! k)) = length ps - Suc k"
proof (induction ps arbitrary: i)
  case Nil
  then show ?case by simp
next
  case (Cons p ps)
  from wf_hierarchy_nth [OF Cons.prems(1,2)] Cons.prems(3)
  have p: "p < length nodes" and pp: "node_parents (nodes ! p) = ps" by simp_all
  from wf_hierarchy_nth [OF Cons.prems(1) p] pp have dp: "node_depth (nodes ! p) = length ps" by simp
  note ih = Cons.IH [OF Cons.prems(1) p pp]
  show ?case
  proof (intro allI impI)
    fix k assume k: "k < length (p # ps)"
    show "(p # ps) ! k < length nodes \<and> node_depth (nodes ! ((p # ps) ! k)) = length (p # ps) - Suc k"
    proof (cases k)
      case 0
      with p dp show ?thesis by simp
    next
      case (Suc k')
      with k ih show ?thesis by simp
    qed
  qed
qed

lemma one_region_ancestor:
  assumes wf: "wf_hierarchy nodes" and d: "d < length nodes"
    and a: "isDescendantOf (nodes ! d) a" and b: "isDescendantOf (nodes ! d) b"
    and depth: "node_depth (nodes ! a) = node_depth (nodes ! b)"
  shows "a = b \<and> a < length nodes"
proof -
  let ?ps = "node_parents (nodes ! d)"
  from a obtain ka where ka: "ka < length ?ps" "?ps ! ka = a"
    by (auto simp: isDescendantOf_def walkParents_set in_set_conv_nth)
  from b obtain kb where kb: "kb < length ?ps" "?ps ! kb = b"
    by (auto simp: isDescendantOf_def walkParents_set in_set_conv_nth)
  note c = chain_depths [OF wf d refl]
  from c ka have da: "a < length nodes" "node_depth (nodes ! a) = length ?ps - Suc ka" by auto
  from c kb have db: "node_depth (nodes ! b) = length ?ps - Suc kb" by auto
  from da db depth ka kb have "ka = kb" by simp
  with ka kb da show ?thesis by simp
qed


section \<open>Entries of the maps\<close>

lemma storeOriginal_other:
  "a \<notin> set rs \<Longrightarrow> storeOriginal cx cy nodes rs m a = m a"
  by (induction rs arbitrary: m) auto

lemma storeOriginal_region:
  "a \<in> set rs \<Longrightarrow>
   storeOriginal cx cy nodes rs m a =
     Some \<lparr>pos_x = jsOr (node_x (nodes ! a)) cx, pos_y = jsOr (node_y (nodes ! a)) cy\<rparr>"
proof (induction rs arbitrary: m)
  case Nil
  then show ?case by simp
next
  case (Cons b rest)
  show ?case
  proof (cases "a \<in> set rest")
    case True
    from Cons.IH [OF this] show ?thesis by simp
  next
    case False
    with Cons.prems have "a = b" by simp
    with False show ?thesis by (simp add: storeOriginal_other)
  qed
qed

lemma applyForces_keeps:
  "applyForces qb forces rs positions t = Inr (positions1, t1) \<Longrightarrow>
   positions n \<noteq> None \<Longrightarrow> positions1 n \<noteq> None"
proof (induction rs arbitrary: positions t)
  case Nil
  then show ?case by simp
next
  case (Cons region rest)
  from applyForces_Cons_Inr [OF Cons.prems(1)] obtain p m where
    rec: "applyForces qb forces rest (positions(region_name region \<mapsto> p)) (t + m) = Inr (positions1, t1)"
    by blast
  from Cons.prems(2) have "(positions(region_name region \<mapsto> p)) n \<noteq> None" by simp
  from Cons.IH [OF rec this] show ?case .
qed

lemma applyForces_defined:
  "applyForces qb forces rs positions t = Inr (positions1, t1) \<Longrightarrow> r \<in> set rs \<Longrightarrow>
   region_quadrant r \<noteq> None \<and> positions1 (region_name r) \<noteq> None"
proof (induction rs arbitrary: positions t)
  case Nil
  then show ?case by simp
next
  case (Cons region rest)
  from applyForces_Cons_Inr [OF Cons.prems(1)] obtain p m where
    c: "constrainRegion qb forces region positions = Inr (p, m)"
    and rec: "applyForces qb forces rest (positions(region_name region \<mapsto> p)) (t + m) = Inr (positions1, t1)"
    by blast
  show ?case
  proof (cases "r \<in> set rest")
    case True
    from Cons.IH [OF rec this] show ?thesis .
  next
    case False
    with Cons.prems(2) have eq: "r = region" by simp
    from constrainRegion_clamped [OF c] have q: "region_quadrant region \<noteq> None" by auto
    have "(positions(region_name region \<mapsto> p)) (region_name region) \<noteq> None" by simp
    from applyForces_keeps [OF rec this] q eq show ?thesis by simp
  qed
qed

lemma calculateOptimalPositions_entries:
  assumes "calculateOptimalPositions regionNodes packWidth packHeight quads = Inr positions"
    and "node \<in> set regionNodes"
  shows "quads (name (node_data node)) \<noteq> None \<and> positions (name (node_data node)) \<noteq> None"
proof -
  from calculateOptimalPositions_last_pass [OF assms(1)] obtain before t where
    "iterationBody (quadrantBounds packWidth packHeight) (map (mkRegion quads) regionNodes) before
       = Inr (positions, t)" by blast
  from iterationBody_applyForces [OF this] obtain forces where
    ap: "applyForces (quadrantBounds packWidth packHeight) forces (map (mkRegion quads) regionNodes)
           before 0 = Inr (positions, t)" by blast
  from assms(2) have "mkRegion quads node \<in> set (map (mkRegion quads) regionNodes)" by simp
  from applyForces_defined [OF ap this] show ?thesis by (simp add: mkRegion_def)
qed

lemma quadrants_nonempty: "quadrants nm \<noteq> None \<Longrightarrow> nm \<noteq> ''''"
  by (auto simp: quadrants_def)

text \<open>
  When \<open>positionRegionCircles\<close> returns, every region circle has an assigned quadrant, an
  entry in the computed positions and that entry as its centre.
\<close>

lemma positionRegionCircles_region_placed:
  assumes ret: "positionRegionCircles packWidth packHeight nodes = Inr res"
    and a: "a < length nodes" "node_depth (nodes ! a) = 1"
  shows "\<exists>positions p.
     calculateOptimalPositions
       (map (\<lambda>d. nodes ! d) (filter (\<lambda>d. node_depth (nodes ! d) = 1) [0..<length nodes]))
       packWidth packHeight quadrants = Inr positions \<and>
     quadrants (name (node_data (nodes ! a))) \<noteq> None \<and>
     positions (name (node_data (nodes ! a))) = Some p \<and>
     node_x (res ! a) = Some (pos_x p) \<and> node_y (res ! a) = Some (pos_y p)"
proof -
  let ?rs = "filter (\<lambda>d. node_depth (nodes ! d) = 1) [0..<length nodes]"
  let ?orig = "storeOriginal (packWidth / 2) (packHeight / 2) nodes ?rs Map.empty"
  from a have amem: "a \<in> set ?rs" by simp
  from amem have ne1: "?rs \<noteq> []" by (metis empty_iff list.set(1))
  from a(1) have ne2: "nodes \<noteq> []" by auto
  note ne = ne1 ne2
  with ret obtain positions where
    calc: "calculateOptimalPositions (map (\<lambda>d. nodes ! d) ?rs) packWidth packHeight quadrants
             = Inr positions"
    and ap: "applyRegions positions ?orig ?rs nodes = Inr res"
    by (auto simp: positionRegionCircles_def Let_def bindE_eq_Inr)
  from amem have "nodes ! a \<in> set (map (\<lambda>d. nodes ! d) ?rs)" by (simp only: set_map) blast
  from calculateOptimalPositions_entries [OF calc this] obtain newPos where
    np: "positions (name (node_data (nodes ! a))) = Some newPos"
    and q: "quadrants (name (node_data (nodes ! a))) \<noteq> None"
    and nm: "name (node_data (nodes ! a)) \<noteq> ''''"
    using quadrants_nonempty by blast
  have dist: "distinct ?rs" by simp
  have depths: "\<forall>b \<in> set ?rs. node_depth (nodes ! b) = 1" by simp
  from applyRegions_region_placed [OF ap dist amem depths a(1) nm np] calc q np
  show ?thesis by blast
qed

text \<open>
  Where a descendant ends up: at the region circle's new centre plus its offset from the
  point recorded in \<open>originalPositions\<close>, which is \<open>regionNode.x || centreX\<close> and
  \<open>regionNode.y || centreY\<close>.
\<close>

lemma positionRegionCircles_offset:
  assumes wf: "wf_hierarchy nodes"
    and ret: "positionRegionCircles packWidth packHeight nodes = Inr res"
    and a: "node_depth (nodes ! a) = 1"
    and d: "d < length nodes" "node_depth (nodes ! d) > 1" "isDescendantOf (nodes ! d) a"
    and xy: "node_x (nodes ! d) = Some cx" "node_y (nodes ! d) = Some cy"
  shows "\<exists>ax ay. node_x (res ! a) = Some ax \<and> node_y (res ! a) = Some ay \<and>
           node_x (res ! d) = Some (ax + (cx - jsOr (node_x (nodes ! a)) (packWidth / 2))) \<and>
           node_y (res ! d) = Some (ay + (cy - jsOr (node_y (nodes ! a)) (packHeight / 2)))"
proof -
  let ?rs = "filter (\<lambda>d. node_depth (nodes ! d) = 1) [0..<length nodes]"
  let ?orig = "storeOriginal (packWidth / 2) (packHeight / 2) nodes ?rs Map.empty"
  from one_region_ancestor [OF wf d(1) d(3) d(3)] have alen: "a < length nodes" by simp
  with a have amem: "a \<in> set ?rs" by simp
  from amem have ne1: "?rs \<noteq> []" by (metis empty_iff list.set(1))
  from alen have ne2: "nodes \<noteq> []" by auto
  note ne = ne1 ne2
  with ret obtain positions where
    calc: "calculateOptimalPositions (map (\<lambda>d. nodes ! d) ?rs) packWidth packHeight quadrants
             = Inr positions"
    and ap: "applyRegions positions ?orig ?rs nodes = Inr res"
    by (auto simp: positionRegionCircles_def Let_def bindE_eq_Inr)
  from amem have "nodes ! a \<in> set (map (\<lambda>d. nodes ! d) ?rs)" by (simp only: set_map) blast
  from calculateOptimalPositions_entries [OF calc this] obtain newPos where
    np: "positions (name (node_data (nodes ! a))) = Some newPos"
    and nm: "name (node_data (nodes ! a)) \<noteq> ''''"
    using quadrants_nonempty by blast
  have dist: "distinct ?rs" by simp
  have depths: "\<forall>b \<in> set ?rs. node_depth (nodes ! b) = 1" by simp
  have uniq: "\<forall>b \<in> set ?rs. b \<noteq> a \<longrightarrow> \<not> isDescendantOf (nodes ! d) b"
  proof (intro ballI impI notI)
    fix b assume "b \<in> set ?rs" and "b \<noteq> a" and "isDescendantOf (nodes ! d) b"
    with one_region_ancestor [OF wf d(1) d(3), of b] a
    show False by simp
  qed
  from applyRegions_moved [OF ap dist amem depths alen d(1) nm np d(2) d(3) uniq xy]
  obtain orig where o: "?orig a = Some orig"
    and r: "node_x (res ! a) = Some (pos_x newPos)" "node_y (res ! a) = Some (pos_y newPos)"
      "node_x (res ! d) = Some (pos_x newPos + (cx - pos_x orig))"
      "node_y (res ! d) = Some (pos_y newPos + (cy - pos_y orig))"
    by blast
  from o storeOriginal_region [OF amem, of "packWidth / 2" "packHeight / 2" nodes Map.empty]
  have "orig = \<lparr>pos_x = jsOr (node_x (nodes ! a)) (packWidth / 2),
               pos_y = jsOr (node_y (nodes ! a)) (packHeight / 2)\<rparr>" by simp
  with r show ?thesis by simp
qed

lemma insidePack_jsOr:
  "insidePack packWidth packHeight node \<Longrightarrow>
   \<exists>x y. node_x node = Some x \<and> node_y node = Some y \<and>
     jsOr (node_x node) cx = x \<and> jsOr (node_y node) cy = y"
  by (auto simp: insidePack_def jsOr_def split: option.splits)

text \<open>
  Claim C1. In a well-formed hierarchy, with the region circle packed inside the rectangle
  of the pack, after \<open>positionRegionCircles\<close> has run a descendant (depth above 1, both
  coordinates defined) of the region circle is at the region circle's new centre plus the
  descendant's offset from the region circle's packed centre, exactly, in \<open>x\<close> and in \<open>y\<close>.
\<close>

theorem positionRegionCircles_rigid_offset:
  assumes wf: "wf_hierarchy nodes"
    and ret: "positionRegionCircles packWidth packHeight nodes = Inr res"
    and a: "node_depth (nodes ! a) = 1" "insidePack packWidth packHeight (nodes ! a)"
    and d: "d < length nodes" "node_depth (nodes ! d) > 1" "isDescendantOf (nodes ! d) a"
    and xy: "node_x (nodes ! d) = Some cx" "node_y (nodes ! d) = Some cy"
  shows "\<exists>newX newY packedX packedY.
           node_x (res ! a) = Some newX \<and> node_y (res ! a) = Some newY \<and>
           node_x (nodes ! a) = Some packedX \<and> node_y (nodes ! a) = Some packedY \<and>
           node_x (res ! d) = Some (newX + (cx - packedX)) \<and>
           node_y (res ! d) = Some (newY + (cy - packedY))"
proof -
  from insidePack_jsOr [OF a(2), of "packWidth / 2" "packHeight / 2"] obtain x y where
    p: "node_x (nodes ! a) = Some x" "node_y (nodes ! a) = Some y"
       "jsOr (node_x (nodes ! a)) (packWidth / 2) = x" "jsOr (node_y (nodes ! a)) (packHeight / 2) = y"
    by blast
  from positionRegionCircles_offset [OF wf ret a(1) d xy] obtain ax ay where
    "node_x (res ! a) = Some ax" "node_y (res ! a) = Some ay"
    "node_x (res ! d) = Some (ax + (cx - jsOr (node_x (nodes ! a)) (packWidth / 2)))"
    "node_y (res ! d) = Some (ay + (cy - jsOr (node_y (nodes ! a)) (packHeight / 2)))"
    by blast
  with p show ?thesis by simp
qed

text \<open>
  Claim C2, amended. When \<open>positionRegionCircles\<close> returns, a region circle has an assigned
  quadrant, and its final centre is the position \<open>calculateOptimalPositions\<close> returned for it.
  The names of the region circles being distinct, each coordinate of that position lies
  within the quadrant's bounds inset by radius + padding, \<open>min + radius + 5 \<le> v\<close> and
  \<open>v \<le> max - radius - 5\<close>, when that interval is not empty; when the circle is too large for
  its quadrant, so that the interval is empty, the coordinate is the lower end
  \<open>min + radius + 5\<close>, above the upper end.
\<close>

theorem positionRegionCircles_within_bounds:
  assumes ret: "positionRegionCircles packWidth packHeight nodes = Inr res"
    and a: "a < length nodes" "node_depth (nodes ! a) = 1"
    and dist: "distinct (map (\<lambda>d. name (node_data (nodes ! d)))
                 (filter (\<lambda>d. node_depth (nodes ! d) = 1) [0..<length nodes]))"
  shows "\<exists>q positions p.
     quadrants (name (node_data (nodes ! a))) = Some q \<and>
     calculateOptimalPositions
       (map (\<lambda>d. nodes ! d) (filter (\<lambda>d. node_depth (nodes ! d) = 1) [0..<length nodes]))
       packWidth packHeight quadrants = Inr positions \<and>
     positions (name (node_data (nodes ! a))) = Some p \<and>
     node_x (res ! a) = Some (pos_x p) \<and> node_y (res ! a) = Some (pos_y p) \<and>
     (if minX (quadrantBounds packWidth packHeight q) + (jsOr (node_r (nodes ! a)) 0 + 5)
           \<le> maxX (quadrantBounds packWidth packHeight q) - (jsOr (node_r (nodes ! a)) 0 + 5)
      then minX (quadrantBounds packWidth packHeight q) + (jsOr (node_r (nodes ! a)) 0 + 5) \<le> pos_x p \<and>
           pos_x p \<le> maxX (quadrantBounds packWidth packHeight q) - (jsOr (node_r (nodes ! a)) 0 + 5)
      else pos_x p = minX (quadrantBounds packWidth packHeight q) + (jsOr (node_r (nodes ! a)) 0 + 5)) \<and>
     (if minY (quadrantBounds packWidth packHeight q) + (jsOr (node_r (nodes ! a)) 0 + 5)
           \<le> maxY (quadrantBounds packWidth packHeight q) - (jsOr (node_r (nodes ! a)) 0 + 5)
      then minY (quadrantBounds packWidth packHeight q) + (jsOr (node_r (nodes ! a)) 0 + 5) \<le> pos_y p \<and>
           pos_y p \<le> maxY (quadrantBounds packWidth packHeight q) - (jsOr (node_r (nodes ! a)) 0 + 5)
      else pos_y p = minY (quadrantBounds packWidth packHeight q) + (jsOr (node_r (nodes ! a)) 0 + 5))"
proof -
  let ?rs = "filter (\<lambda>d. node_depth (nodes ! d) = 1) [0..<length nodes]"
  from positionRegionCircles_region_placed [OF ret a] obtain positions p where
    calc: "calculateOptimalPositions (map (\<lambda>d. nodes ! d) ?rs) packWidth packHeight quadrants
             = Inr positions"
    and p: "positions (name (node_data (nodes ! a))) = Some p"
    and xy: "node_x (res ! a) = Some (pos_x p)" "node_y (res ! a) = Some (pos_y p)"
    by blast
  from a have "a \<in> set ?rs" by simp
  then have mem: "nodes ! a \<in> set (map (\<lambda>d. nodes ! d) ?rs)" by (simp only: set_map) blast
  have dist': "distinct (map (\<lambda>n. name (node_data n)) (map (\<lambda>d. nodes ! d) ?rs))"
    using dist by (simp add: comp_def)
  from calculateOptimalPositions_clamped [OF calc dist' mem] p calc xy
  show ?thesis by auto
qed


section \<open>No error but the missing quadrant\<close>

lemma initPositions_total:
  "\<forall>r \<in> set rs. region_quadrant r \<noteq> None \<Longrightarrow>
   \<exists>p. initPositions qb rs positions = Inr p \<and>
       (\<forall>n. positions n \<noteq> None \<longrightarrow> p n \<noteq> None) \<and> (\<forall>r \<in> set rs. p (region_name r) \<noteq> None)"
proof (induction rs arbitrary: positions)
  case Nil
  then show ?case by simp
next
  case (Cons r rest)
  from Cons.prems obtain q where q: "region_quadrant r = Some q" by auto
  let ?p1 = "positions(region_name r \<mapsto> \<lparr>pos_x = centerX (qb q), pos_y = centerY (qb q)\<rparr>)"
  from Cons.prems have "\<forall>r \<in> set rest. region_quadrant r \<noteq> None" by simp
  from Cons.IH [OF this, of ?p1] obtain p where
    p: "initPositions qb rest ?p1 = Inr p" "\<forall>n. ?p1 n \<noteq> None \<longrightarrow> p n \<noteq> None"
       "\<forall>r \<in> set rest. p (region_name r) \<noteq> None"
    by blast
  have "initPositions qb (r # rest) positions = Inr p" using q p(1) by simp
  moreover have "\<forall>n. positions n \<noteq> None \<longrightarrow> p n \<noteq> None" using p(2) by simp
  moreover have "\<forall>r' \<in> set (r # rest). p (region_name r') \<noteq> None" using p(2,3) by simp
  ultimately show ?case by blast
qed

lemma initPositions_fail:
  "\<exists>r \<in> set rs. region_quadrant r = None \<Longrightarrow> initPositions qb rs positions = Inl TypeError"
proof (induction rs arbitrary: positions)
  case Nil
  then show ?case by simp
next
  case (Cons r rest)
  show ?case
  proof (cases "region_quadrant r")
    case None
    then show ?thesis by simp
  next
    case (Some q)
    with Cons.prems have "\<exists>r \<in> set rest. region_quadrant r = None" by auto
    from Cons.IH [OF this] Some show ?thesis by simp
  qed
qed

lemma initForces_keeps: "forces n \<noteq> None \<Longrightarrow> initForces rs forces n \<noteq> None"
  by (induction rs arbitrary: forces) auto

lemma initForces_defined: "r \<in> set rs \<Longrightarrow> initForces rs forces (region_name r) \<noteq> None"
proof (induction rs arbitrary: forces)
  case Nil
  then show ?case by simp
next
  case (Cons r0 rest)
  show ?case
  proof (cases "r \<in> set rest")
    case True
    from Cons.IH [OF this] show ?thesis by simp
  next
    case False
    with Cons.prems have "r = r0" by simp
    then show ?thesis by (simp add: initForces_keeps)
  qed
qed

lemma pairForce_total:
  "positions (region_name r1) \<noteq> None \<Longrightarrow> positions (region_name r2) \<noteq> None \<Longrightarrow>
   forces (region_name r1) \<noteq> None \<Longrightarrow> forces (region_name r2) \<noteq> None \<Longrightarrow>
   \<exists>f. pairForce positions r1 r2 forces = Inr f \<and> (\<forall>n. forces n \<noteq> None \<longrightarrow> f n \<noteq> None)"
  by (auto simp: pairForce_def Let_def)

lemma innerLoop_total:
  "positions (region_name r1) \<noteq> None \<Longrightarrow> forces (region_name r1) \<noteq> None \<Longrightarrow>
   \<forall>r \<in> set rs. positions (region_name r) \<noteq> None \<and> forces (region_name r) \<noteq> None \<Longrightarrow>
   \<exists>f. innerLoop positions r1 rs forces = Inr f \<and> (\<forall>n. forces n \<noteq> None \<longrightarrow> f n \<noteq> None)"
proof (induction rs arbitrary: forces)
  case Nil
  then show ?case by simp
next
  case (Cons r2 rest)
  from Cons.prems have "positions (region_name r2) \<noteq> None" "forces (region_name r2) \<noteq> None" by simp_all
  from pairForce_total [OF Cons.prems(1) this(1) Cons.prems(2) this(2)] obtain f1 where
    f1: "pairForce positions r1 r2 forces = Inr f1" "\<forall>n. forces n \<noteq> None \<longrightarrow> f1 n \<noteq> None" by blast
  have "f1 (region_name r1) \<noteq> None" using f1(2) Cons.prems(2) by blast
  moreover have "\<forall>r \<in> set rest. positions (region_name r) \<noteq> None \<and> f1 (region_name r) \<noteq> None"
    using f1(2) Cons.prems(3) by simp
  ultimately obtain f where "innerLoop positions r1 rest f1 = Inr f" "\<forall>n. f1 n \<noteq> None \<longrightarrow> f n \<noteq> None"
    using Cons.IH [OF Cons.prems(1), of f1] by blast
  with f1 show ?case by auto
qed

lemma outerLoop_total:
  "\<forall>r \<in> set rs. positions (region_name r) \<noteq> None \<and> forces (region_name r) \<noteq> None \<Longrightarrow>
   \<exists>f. outerLoop positions rs forces = Inr f \<and> (\<forall>n. forces n \<noteq> None \<longrightarrow> f n \<noteq> None)"
proof (induction rs arbitrary: forces)
  case Nil
  then show ?case by simp
next
  case (Cons r1 rest)
  from Cons.prems have a: "positions (region_name r1) \<noteq> None" "forces (region_name r1) \<noteq> None"
    and b: "\<forall>r \<in> set rest. positions (region_name r) \<noteq> None \<and> forces (region_name r) \<noteq> None"
    by simp_all
  from innerLoop_total [OF a b] obtain f1 where
    f1: "innerLoop positions r1 rest forces = Inr f1" "\<forall>n. forces n \<noteq> None \<longrightarrow> f1 n \<noteq> None" by blast
  have "\<forall>r \<in> set rest. positions (region_name r) \<noteq> None \<and> f1 (region_name r) \<noteq> None"
    using f1(2) b by simp
  from Cons.IH [OF this] obtain f where
    "outerLoop positions rest f1 = Inr f" "\<forall>n. f1 n \<noteq> None \<longrightarrow> f n \<noteq> None" by blast
  with f1 show ?case by auto
qed

lemma constrainRegion_total:
  "positions (region_name r) \<noteq> None \<Longrightarrow> forces (region_name r) \<noteq> None \<Longrightarrow>
   region_quadrant r \<noteq> None \<Longrightarrow> \<exists>p m. constrainRegion qb forces r positions = Inr (p, m)"
  by (auto simp: constrainRegion_def Let_def)

lemma applyForces_total:
  "\<forall>r \<in> set rs. positions (region_name r) \<noteq> None \<and> forces (region_name r) \<noteq> None
      \<and> region_quadrant r \<noteq> None \<Longrightarrow>
   \<exists>p1 t1. applyForces qb forces rs positions t = Inr (p1, t1)"
proof (induction rs arbitrary: positions t)
  case Nil
  then show ?case by simp
next
  case (Cons r rest)
  from Cons.prems obtain p m where c: "constrainRegion qb forces r positions = Inr (p, m)"
    using constrainRegion_total [of positions r forces qb] by auto
  have "\<forall>r' \<in> set rest. (positions(region_name r \<mapsto> p)) (region_name r') \<noteq> None
          \<and> forces (region_name r') \<noteq> None \<and> region_quadrant r' \<noteq> None"
    using Cons.prems by simp
  from Cons.IH [of "positions(region_name r \<mapsto> p)" "t + m"] this obtain p1 t1 where
    "applyForces qb forces rest (positions(region_name r \<mapsto> p)) (t + m) = Inr (p1, t1)" by blast
  with c show ?case by simp
qed

lemma iterationBody_total:
  assumes "\<forall>r \<in> set rs. positions (region_name r) \<noteq> None \<and> region_quadrant r \<noteq> None"
  shows "\<exists>p1 t1. iterationBody qb rs positions = Inr (p1, t1) \<and>
           (\<forall>r \<in> set rs. p1 (region_name r) \<noteq> None)"
proof -
  have "\<forall>r \<in> set rs. positions (region_name r) \<noteq> None
          \<and> initForces rs Map.empty (region_name r) \<noteq> None"
    using assms initForces_defined by blast
  from outerLoop_total [OF this] obtain f where
    f: "outerLoop positions rs (initForces rs Map.empty) = Inr f"
       "\<forall>n. initForces rs Map.empty n \<noteq> None \<longrightarrow> f n \<noteq> None" by blast
  have "\<forall>r \<in> set rs. positions (region_name r) \<noteq> None \<and> f (region_name r) \<noteq> None
          \<and> region_quadrant r \<noteq> None"
    using assms f(2) initForces_defined by blast
  from applyForces_total [OF this, of qb 0] obtain p1 t1 where
    ap: "applyForces qb f rs positions 0 = Inr (p1, t1)" by blast
  have "\<forall>r \<in> set rs. p1 (region_name r) \<noteq> None"
    using applyForces_defined [OF ap] by blast
  with ap f(1) show ?thesis by (simp add: iterationBody_def)
qed

lemma optimiseLoop_total:
  "\<forall>r \<in> set rs. positions (region_name r) \<noteq> None \<and> region_quadrant r \<noteq> None \<Longrightarrow>
   \<exists>p. optimiseLoop qb rs iteration positions = Inr p"
proof (induction "maxIterations - iteration" arbitrary: iteration positions)
  case 0
  then have "\<not> iteration < maxIterations" by simp
  then show ?case by (subst optimiseLoop.simps) simp
next
  case (Suc n)
  then have lt: "iteration < maxIterations" by simp
  from iterationBody_total [OF Suc.prems] obtain p1 t1 where
    b: "iterationBody qb rs positions = Inr (p1, t1)"
    and d: "\<forall>r \<in> set rs. p1 (region_name r) \<noteq> None" by blast
  show ?case
  proof (cases "t1 < 1")
    case True
    with lt b show ?thesis by (subst optimiseLoop.simps) simp
  next
    case False
    from Suc.hyps(2) have "n = maxIterations - (iteration + 1)" by simp
    moreover have "\<forall>r \<in> set rs. p1 (region_name r) \<noteq> None \<and> region_quadrant r \<noteq> None"
      using d Suc.prems by simp
    ultimately obtain p where "optimiseLoop qb rs (iteration + 1) p1 = Inr p"
      using Suc.hyps(1) by blast
    with lt b False show ?thesis by (subst optimiseLoop.simps) simp
  qed
qed

lemma calculateOptimalPositions_total:
  assumes "\<forall>n \<in> set regionNodes. quads (name (node_data n)) \<noteq> None"
  shows "\<exists>p. calculateOptimalPositions regionNodes packWidth packHeight quads = Inr p"
proof -
  let ?rs = "map (mkRegion quads) regionNodes"
  have q: "\<forall>r \<in> set ?rs. region_quadrant r \<noteq> None" using assms by (simp add: mkRegion_def)
  from initPositions_total [OF q] obtain p0 where
    p0: "initPositions (quadrantBounds packWidth packHeight) ?rs Map.empty = Inr p0"
        "\<forall>r \<in> set ?rs. p0 (region_name r) \<noteq> None" by blast
  have "\<forall>r \<in> set ?rs. p0 (region_name r) \<noteq> None \<and> region_quadrant r \<noteq> None"
    using p0(2) q by blast
  from optimiseLoop_total [OF this] obtain p where
    "optimiseLoop (quadrantBounds packWidth packHeight) ?rs 0 p0 = Inr p" by blast
  with p0(1) show ?thesis by (simp add: calculateOptimalPositions_def Let_def)
qed

lemma calculateOptimalPositions_fail:
  assumes "\<exists>n \<in> set regionNodes. quads (name (node_data n)) = None"
  shows "calculateOptimalPositions regionNodes packWidth packHeight quads = Inl TypeError"
proof -
  have "\<exists>r \<in> set (map (mkRegion quads) regionNodes). region_quadrant r = None"
    using assms by (simp add: mkRegion_def)
  from initPositions_fail [OF this] show ?thesis
    by (simp add: calculateOptimalPositions_def Let_def)
qed

lemma moveChildren_total:
  "original \<noteq> None \<Longrightarrow> \<exists>res. moveChildren newPos original cs nodes = Inr res"
  by (induction cs arbitrary: nodes) (auto simp: Let_def split: option.splits)

lemma moveChildren_error:
  "moveChildren newPos original cs nodes = Inl e \<Longrightarrow> e = TypeError"
  by (induction cs arbitrary: nodes) (auto simp: Let_def split: option.splits)

lemma applyRegion_total:
  "originalPositions i \<noteq> None \<Longrightarrow> \<exists>res. applyRegion positions originalPositions i nodes = Inr res"
  using moveChildren_total [of "originalPositions i"]
  by (auto simp: applyRegion_def Let_def split: option.splits)

lemma applyRegion_error:
  "applyRegion positions originalPositions i nodes = Inl e \<Longrightarrow> e = TypeError"
  by (auto simp: applyRegion_def Let_def split: option.splits if_splits dest: moveChildren_error)

lemma applyRegion_skip:
  "positions (name (node_data (nodes ! i))) = None \<Longrightarrow>
   applyRegion positions originalPositions i nodes = Inr nodes"
  by (simp add: applyRegion_def Let_def)

lemma applyRegions_total:
  "\<forall>i \<in> set rs. originalPositions i \<noteq> None \<Longrightarrow>
   \<exists>res. applyRegions positions originalPositions rs nodes = Inr res"
proof (induction rs arbitrary: nodes)
  case Nil
  then show ?case by simp
next
  case (Cons i rest)
  from Cons.prems obtain nodes1 where
    "applyRegion positions originalPositions i nodes = Inr nodes1"
    using applyRegion_total [of originalPositions i positions nodes] by auto
  moreover from Cons.prems have "\<forall>i \<in> set rest. originalPositions i \<noteq> None" by simp
  from Cons.IH [OF this, of nodes1] obtain res where
    "applyRegions positions originalPositions rest nodes1 = Inr res" by blast
  ultimately show ?case by simp
qed

lemma positionRegionCircles_total:
  assumes "\<forall>j < length nodes. node_depth (nodes ! j) = 1
             \<longrightarrow> quadrants (name (node_data (nodes ! j))) \<noteq> None"
  shows "\<exists>res. positionRegionCircles packWidth packHeight nodes = Inr res"
proof -
  let ?rs = "filter (\<lambda>d. node_depth (nodes ! d) = 1) [0..<length nodes]"
  let ?orig = "storeOriginal (packWidth / 2) (packHeight / 2) nodes ?rs Map.empty"
  have "\<forall>n \<in> set (map (\<lambda>d. nodes ! d) ?rs). quadrants (name (node_data n)) \<noteq> None"
    using assms by auto
  from calculateOptimalPositions_total [OF this] obtain p where
    p: "calculateOptimalPositions (map (\<lambda>d. nodes ! d) ?rs) packWidth packHeight quadrants = Inr p"
    by blast
  have "\<forall>i \<in> set ?rs. ?orig i \<noteq> None" by (simp add: storeOriginal_region)
  from applyRegions_total [OF this] obtain res where
    "applyRegions p ?orig ?rs nodes = Inr res" by blast
  with p show ?thesis by (auto simp: positionRegionCircles_def Let_def)
qed

lemma positionRegionCircles_fail:
  assumes "\<exists>j < length nodes. node_depth (nodes ! j) = 1
             \<and> quadrants (name (node_data (nodes ! j))) = None"
  shows "positionRegionCircles packWidth packHeight nodes = Inl TypeError"
proof -
  let ?rs = "filter (\<lambda>d. node_depth (nodes ! d) = 1) [0..<length nodes]"
  from assms obtain j where j: "j < length nodes" "node_depth (nodes ! j) = 1"
    "quadrants (name (node_data (nodes ! j))) = None" by blast
  then have mem: "j \<in> set ?rs" by simp
  then have ne: "?rs \<noteq> []" by (metis empty_iff list.set(1))
  from j(1) have ne2: "nodes \<noteq> []" by auto
  from mem j(3) have "\<exists>n \<in> set (map (\<lambda>d. nodes ! d) ?rs). quadrants (name (node_data n)) = None"
    by (simp only: set_map) blast
  from calculateOptimalPositions_fail [OF this] ne ne2 show ?thesis
    by (simp add: positionRegionCircles_def Let_def)
qed

text \<open>
  The \<open>throw new Error('Node position could not be calculated')\<close> of the last loop stands
  behind the test \<open>positions.has(regionNode.data.name)\<close>: it is never reached.
\<close>

lemma positionRegionCircles_no_PositionError:
  "positionRegionCircles packWidth packHeight nodes \<noteq> Inl PositionError"
proof (cases "\<exists>j < length nodes. node_depth (nodes ! j) = 1
        \<and> quadrants (name (node_data (nodes ! j))) = None")
  case True
  from positionRegionCircles_fail [OF this] show ?thesis by simp
next
  case False
  then have "\<forall>j < length nodes. node_depth (nodes ! j) = 1
        \<longrightarrow> quadrants (name (node_data (nodes ! j))) \<noteq> None" by auto
  from positionRegionCircles_total [OF this, of packWidth packHeight] show ?thesis by auto
qed

text \<open>
  Claim C7. \<open>positionRegionCircles\<close> walks over the region circles, so a name of the
  assignment map without a circle is never looked at: the operation succeeds whenever every
  region circle has a name of the assignment map. A region circle without a computed
  position is never passed over in silence. When a region circle's name is not in the
  assignment map, so that no position can be computed for it, the operation throws (a
  \<open>TypeError\<close>, raised in \<open>calculateOptimalPositions\<close> before any node is moved). A positions
  map that \<open>calculateOptimalPositions\<close> returns has an entry for every region circle. And when
  the operation returns, every region circle has that entry, with both coordinates defined,
  as its centre.
\<close>

theorem positionRegionCircles_missing_entry:
  "((\<forall>j < length nodes. node_depth (nodes ! j) = 1
        \<longrightarrow> quadrants (name (node_data (nodes ! j))) \<noteq> None)
      \<longrightarrow> (\<exists>res. positionRegionCircles packWidth packHeight nodes = Inr res)) \<and>
   ((\<exists>j < length nodes. node_depth (nodes ! j) = 1
        \<and> quadrants (name (node_data (nodes ! j))) = None)
      \<longrightarrow> positionRegionCircles packWidth packHeight nodes = Inl TypeError) \<and>
   (\<forall>positions. calculateOptimalPositions
        (map (\<lambda>d. nodes ! d) (filter (\<lambda>d. node_depth (nodes ! d) = 1) [0..<length nodes]))
        packWidth packHeight quadrants = Inr positions \<longrightarrow>
      (\<forall>a < length nodes. node_depth (nodes ! a) = 1 \<longrightarrow>
         positions (name (node_data (nodes ! a))) \<noteq> None)) \<and>
   (\<forall>res. positionRegionCircles packWidth packHeight nodes = Inr res \<longrightarrow>
      (\<forall>a < length nodes. node_depth (nodes ! a) = 1 \<longrightarrow>
         (\<exists>positions p.
            calculateOptimalPositions
              (map (\<lambda>d. nodes ! d) (filter (\<lambda>d. node_depth (nodes ! d) = 1) [0..<length nodes]))
              packWidth packHeight quadrants = Inr positions \<and>
            positions (name (node_data (nodes ! a))) = Some p \<and>
            node_x (res ! a) = Some (pos_x p) \<and> node_y (res ! a) = Some (pos_y p))))"
proof (intro conjI impI allI)
  assume "\<forall>j < length nodes. node_depth (nodes ! j) = 1
        \<longrightarrow> quadrants (name (node_data (nodes ! j))) \<noteq> None"
  from positionRegionCircles_total [OF this]
  show "\<exists>res. positionRegionCircles packWidth packHeight nodes = Inr res" .
next
  assume "\<exists>j < length nodes. node_depth (nodes ! j) = 1
        \<and> quadrants (name (node_data (nodes ! j))) = None"
  from positionRegionCircles_fail [OF this]
  show "positionRegionCircles packWidth packHeight nodes = Inl TypeError" .
next
  fix positions a
  let ?rs = "filter (\<lambda>d. node_depth (nodes ! d) = 1) [0..<length nodes]"
  assume calc: "calculateOptimalPositions (map (\<lambda>d. nodes ! d) ?rs)
        packWidth packHeight quadrants = Inr positions"
    and a: "a < length nodes" "node_depth (nodes ! a) = 1"
  from a have "a \<in> set ?rs" by simp
  then have "nodes ! a \<in> set (map (\<lambda>d. nodes ! d) ?rs)" by (simp only: set_map) blast
  from calculateOptimalPositions_entries [OF calc this]
  show "positions (name (node_data (nodes ! a))) \<noteq> None" by simp
next
  fix res a
  assume ret: "positionRegionCircles packWidth packHeight nodes = Inr res"
    and a: "a < length nodes" "node_depth (nodes ! a) = 1"
  from positionRegionCircles_region_placed [OF ret a]
  show "\<exists>positions p.
            calculateOptimalPositions
              (map (\<lambda>d. nodes ! d) (filter (\<lambda>d. node_depth (nodes ! d) = 1) [0..<length nodes]))
              packWidth packHeight quadrants = Inr positions \<and>
            positions (name (node_data (nodes ! a))) = Some p \<and>
            node_x (res ! a) = Some (pos_x p) \<and> node_y (res ! a) = Some (pos_y p)"
    by blast
qed



section \<open>The example hierarchy\<close>

lemma ex_one_region:
  "calculateOptimalPositions [mkNode ''Northern Europe'' ps rx ry 50] 800 600 quadrants
     = Inr [''Northern Europe'' \<mapsto> \<lparr>pos_x = 400, pos_y = 150\<rparr>]"
proof -
  have body: "iterationBody (quadrantBounds 800 600)
      [\<lparr>region_name = ''Northern Europe'', region_radius = 50, region_quadrant = Some Top\<rparr>]
      [''Northern Europe'' \<mapsto> \<lparr>pos_x = 400, pos_y = 150\<rparr>]
    = Inr ([''Northern Europe'' \<mapsto> \<lparr>pos_x = 400, pos_y = 150\<rparr>], 0)"
    by (simp add: eval_defs)
  show ?thesis
    apply (simp add: calculateOptimalPositions_def mkRegion_def mkNode_def quadrants_def jsOr_def Let_def)
    apply (simp add: quadrantBounds_def [of _ _ Top] Let_def)
    apply (subst optimiseLoop.simps)
    apply (simp add: maxIterations_def body)
    done
qed

lemma upt_3: "[0..<3] = [0, 1, 2]"
  by (simp add: upt_conv_Cons)

lemma ex_length: "length (exampleNodes nm rx ry) = 3"
  by (simp add: exampleNodes_def)

lemma ex_region_nodes:
  "filter (\<lambda>d. node_depth (exampleNodes nm rx ry ! d) = 1) [0..<length (exampleNodes nm rx ry)] = [1]"
  unfolding ex_length upt_3 by (simp add: exampleNodes_def mkNode_def)

lemma ex_applyRegion:
  "applyRegion [''Northern Europe'' \<mapsto> \<lparr>pos_x = 400, pos_y = 150\<rparr>]
     (storeOriginal 400 300 (exampleNodes ''Northern Europe'' rx ry) [1] Map.empty) 1
     (exampleNodes ''Northern Europe'' rx ry)
   = Inr [mkNode ''Europe'' [] 400 300 300,
          mkNode ''Northern Europe'' [0] 400 150 50,
          mkNode ''Norway'' [1, 0] (400 + (rx + 10 - jsOr (Some rx) 400))
            (150 + (ry + 10 - jsOr (Some ry) 300)) 5]"
  unfolding applyRegion_def Let_def length_list_update ex_length upt_3
  by (simp add: exampleNodes_def mkNode_def isDescendantOf_def)

lemma ex_positioned:
  "positionRegionCircles 800 600 (exampleNodes ''Northern Europe'' rx ry)
   = Inr [mkNode ''Europe'' [] 400 300 300,
          mkNode ''Northern Europe'' [0] 400 150 50,
          mkNode ''Norway'' [1, 0] (400 + (rx + 10 - jsOr (Some rx) 400))
            (150 + (ry + 10 - jsOr (Some ry) 300)) 5]"
proof -
  have calc: "calculateOptimalPositions
      (map (\<lambda>d. exampleNodes ''Northern Europe'' rx ry ! d) [1]) 800 600 quadrants
     = Inr [''Northern Europe'' \<mapsto> \<lparr>pos_x = 400, pos_y = 150\<rparr>]"
    using ex_one_region [of "[0]" rx ry] by (simp add: exampleNodes_def)
  have ne: "exampleNodes ''Northern Europe'' rx ry \<noteq> []" by (simp add: exampleNodes_def)
  show ?thesis
    unfolding positionRegionCircles_def Let_def ex_region_nodes calc
    using ne ex_applyRegion [of rx ry] by simp
qed

lemma ex_wf: "wf_hierarchy (exampleNodes nm rx ry)"
  by (simp add: wf_hierarchy_def exampleNodes_def mkNode_def)

text \<open>A root and one region circle of radius 140, too large for the top quadrant of 800 by 600.\<close>

lemma upt_2: "[0..<2] = [0, 1]"
  by (simp add: upt_conv_Cons)

lemma ex_large_region:
  "calculateOptimalPositions [mkNode ''Northern Europe'' [0] 400 160 140] 800 600 quadrants
     = Inr [''Northern Europe'' \<mapsto> \<lparr>pos_x = 400, pos_y = 165\<rparr>]"
proof -
  have a1: "iterationBody (quadrantBounds 800 600)
      [\<lparr>region_name = ''Northern Europe'', region_radius = 140, region_quadrant = Some Top\<rparr>]
      [''Northern Europe'' \<mapsto> \<lparr>pos_x = 400, pos_y = 150\<rparr>]
    = Inr ([''Northern Europe'' \<mapsto> \<lparr>pos_x = 400, pos_y = 165\<rparr>], 15)"
    by (simp add: eval_defs)
  have a2: "iterationBody (quadrantBounds 800 600)
      [\<lparr>region_name = ''Northern Europe'', region_radius = 140, region_quadrant = Some Top\<rparr>]
      [''Northern Europe'' \<mapsto> \<lparr>pos_x = 400, pos_y = 165\<rparr>]
    = Inr ([''Northern Europe'' \<mapsto> \<lparr>pos_x = 400, pos_y = 165\<rparr>], 0)"
    by (simp add: eval_defs)
  show ?thesis
    apply (simp add: calculateOptimalPositions_def mkRegion_def mkNode_def quadrants_def jsOr_def Let_def)
    apply (simp add: quadrantBounds_def [of _ _ Top] Let_def)
    apply (subst optimiseLoop.simps)
    apply (simp add: maxIterations_def a1)
    apply (subst optimiseLoop.simps)
    apply (simp add: maxIterations_def a2)
    done
qed

lemma ex_large_positioned:
  "positionRegionCircles 800 600
     [mkNode ''Europe'' [] 400 300 300, mkNode ''Northern Europe'' [0] 400 160 140]
   = Inr [mkNode ''Europe'' [] 400 300 300, mkNode ''Northern Europe'' [0] 400 165 140]"
proof -
  let ?ns = "[mkNode ''Europe'' [] 400 300 300, mkNode ''Northern Europe'' [0] 400 160 140]"
  have len: "length ?ns = 2" by simp
  have rs: "filter (\<lambda>d. node_depth (?ns ! d) = 1) [0..<length ?ns] = [1]"
    unfolding len upt_2 by (simp add: mkNode_def)
  have calc: "calculateOptimalPositions (map (\<lambda>d. ?ns ! d) [1]) 800 600 quadrants
     = Inr [''Northern Europe'' \<mapsto> \<lparr>pos_x = 400, pos_y = 165\<rparr>]"
    using ex_large_region by simp
  have ap: "applyRegion [''Northern Europe'' \<mapsto> \<lparr>pos_x = 400, pos_y = 165\<rparr>]
     (storeOriginal 400 300 ?ns [1] Map.empty) 1 ?ns
   = Inr [mkNode ''Europe'' [] 400 300 300, mkNode ''Northern Europe'' [0] 400 165 140]"
    unfolding applyRegion_def Let_def length_list_update len upt_2
    by (simp add: mkNode_def isDescendantOf_def)
  show ?thesis
    unfolding positionRegionCircles_def Let_def rs calc
    using ap by simp
qed


text \<open>
  Claim C1 on the example with the region circle packed at \<open>(300, 100)\<close>: it moves to
  \<open>(400, 150)\<close> and its leaf keeps the offset \<open>(10, 10)\<close>.
\<close>

theorem positionRegionCircles_rigid_offset_witness:
  "wf_hierarchy (exampleNodes ''Northern Europe'' 300 100) \<and>
   insidePack 800 600 (exampleNodes ''Northern Europe'' 300 100 ! 1) \<and>
   (\<exists>res. positionRegionCircles 800 600 (exampleNodes ''Northern Europe'' 300 100) = Inr res \<and>
      node_x (res ! 1) = Some 400 \<and> node_y (res ! 1) = Some 150 \<and>
      node_x (res ! 2) = Some (400 + (310 - 300)) \<and> node_y (res ! 2) = Some (150 + (110 - 100)))"
proof -
  let ?ns = "exampleNodes ''Northern Europe'' 300 100"
  obtain res where ret: "positionRegionCircles 800 600 ?ns = Inr res"
    and r1: "node_x (res ! 1) = Some 400" "node_y (res ! 1) = Some 150"
    using ex_positioned [of 300 100] by (simp add: mkNode_def)
  have a: "node_depth (?ns ! 1) = 1" "insidePack 800 600 (?ns ! 1)"
    by (simp_all add: exampleNodes_def mkNode_def insidePack_def)
  have d: "2 < length ?ns" "node_depth (?ns ! 2) > 1" "isDescendantOf (?ns ! 2) 1"
    by (simp_all add: exampleNodes_def mkNode_def isDescendantOf_def)
  have xy: "node_x (?ns ! 2) = Some 310" "node_y (?ns ! 2) = Some 110"
    by (simp_all add: exampleNodes_def mkNode_def)
  have old: "node_x (?ns ! 1) = Some 300" "node_y (?ns ! 1) = Some 100"
    by (simp_all add: exampleNodes_def mkNode_def)
  from positionRegionCircles_rigid_offset [OF ex_wf ret a d xy] r1 old
  have "node_x (res ! 2) = Some (400 + (310 - 300))" "node_y (res ! 2) = Some (150 + (110 - 100))"
    by auto
  with ret r1 ex_wf a(2) show ?thesis by blast
qed

text \<open>
  Claim C2, amended, on two examples in a pack of 800 by 600. The region circle of radius 50
  ends at the position computed for it, inside the top quadrant inset by 55. The region
  circle of radius 140 is too large for the height of the top quadrant: its \<open>x\<close> is within
  the inset bounds, its \<open>y\<close> is the lower end \<open>20 + 145\<close>.
\<close>

theorem positionRegionCircles_within_bounds_witness:
  "(distinct (map (\<lambda>d. name (node_data (exampleNodes ''Northern Europe'' 300 100 ! d)))
     (filter (\<lambda>d. node_depth (exampleNodes ''Northern Europe'' 300 100 ! d) = 1)
        [0..<length (exampleNodes ''Northern Europe'' 300 100)])) \<and>
   (\<exists>res (p :: Pos). positionRegionCircles 800 600 (exampleNodes ''Northern Europe'' 300 100) = Inr res \<and>
      node_x (res ! 1) = Some (pos_x p) \<and> node_y (res ! 1) = Some (pos_y p) \<and>
      20 + (50 + 5) \<le> pos_x p \<and> pos_x p \<le> 780 - (50 + 5) \<and>
      20 + (50 + 5) \<le> pos_y p \<and> pos_y p \<le> 280 - (50 + 5))) \<and>
   (distinct (map (\<lambda>d. name (node_data
       ([mkNode ''Europe'' [] 400 300 300, mkNode ''Northern Europe'' [0] 400 160 140] ! d)))
     (filter (\<lambda>d. node_depth
         ([mkNode ''Europe'' [] 400 300 300, mkNode ''Northern Europe'' [0] 400 160 140] ! d) = 1)
        [0..<length [mkNode ''Europe'' [] 400 300 300, mkNode ''Northern Europe'' [0] 400 160 140]])) \<and>
   (\<exists>res (p :: Pos).
      positionRegionCircles 800 600
        [mkNode ''Europe'' [] 400 300 300, mkNode ''Northern Europe'' [0] 400 160 140] = Inr res \<and>
      node_x (res ! 1) = Some (pos_x p) \<and> node_y (res ! 1) = Some (pos_y p) \<and>
      20 + (140 + 5) \<le> pos_x p \<and> pos_x p \<le> 780 - (140 + 5) \<and>
      \<not> 20 + (140 + 5) \<le> (280 :: real) - (140 + 5) \<and> pos_y p = 20 + (140 + 5)))"
proof -
  have small: "distinct (map (\<lambda>d. name (node_data (exampleNodes ''Northern Europe'' 300 100 ! d)))
     (filter (\<lambda>d. node_depth (exampleNodes ''Northern Europe'' 300 100 ! d) = 1)
        [0..<length (exampleNodes ''Northern Europe'' 300 100)])) \<and>
   (\<exists>res (p :: Pos). positionRegionCircles 800 600 (exampleNodes ''Northern Europe'' 300 100) = Inr res \<and>
      node_x (res ! 1) = Some (pos_x p) \<and> node_y (res ! 1) = Some (pos_y p) \<and>
      20 + (50 + 5) \<le> pos_x p \<and> pos_x p \<le> 780 - (50 + 5) \<and>
      20 + (50 + 5) \<le> pos_y p \<and> pos_y p \<le> 280 - (50 + 5))"
  proof -
    let ?ns = "exampleNodes ''Northern Europe'' 300 100"
    obtain res where ret: "positionRegionCircles 800 600 ?ns = Inr res"
      using ex_positioned [of 300 100] by simp
    have a: "1 < length ?ns" "node_depth (?ns ! 1) = 1"
      by (simp_all add: exampleNodes_def mkNode_def)
    have dist: "distinct (map (\<lambda>d. name (node_data (?ns ! d)))
       (filter (\<lambda>d. node_depth (?ns ! d) = 1) [0..<length ?ns]))"
      unfolding ex_region_nodes by simp
    from positionRegionCircles_within_bounds [OF ret a dist]
    obtain q positions p where w:
       "quadrants (name (node_data (?ns ! 1))) = Some q \<and>
       calculateOptimalPositions
         (map (\<lambda>d. ?ns ! d) (filter (\<lambda>d. node_depth (?ns ! d) = 1) [0..<length ?ns]))
         800 600 quadrants = Inr positions \<and>
       positions (name (node_data (?ns ! 1))) = Some p \<and>
       node_x (res ! 1) = Some (pos_x p) \<and> node_y (res ! 1) = Some (pos_y p) \<and>
       (if minX (quadrantBounds 800 600 q) + (jsOr (node_r (?ns ! 1)) 0 + 5)
             \<le> maxX (quadrantBounds 800 600 q) - (jsOr (node_r (?ns ! 1)) 0 + 5)
        then minX (quadrantBounds 800 600 q) + (jsOr (node_r (?ns ! 1)) 0 + 5) \<le> pos_x p \<and>
             pos_x p \<le> maxX (quadrantBounds 800 600 q) - (jsOr (node_r (?ns ! 1)) 0 + 5)
        else pos_x p = minX (quadrantBounds 800 600 q) + (jsOr (node_r (?ns ! 1)) 0 + 5)) \<and>
       (if minY (quadrantBounds 800 600 q) + (jsOr (node_r (?ns ! 1)) 0 + 5)
             \<le> maxY (quadrantBounds 800 600 q) - (jsOr (node_r (?ns ! 1)) 0 + 5)
        then minY (quadrantBounds 800 600 q) + (jsOr (node_r (?ns ! 1)) 0 + 5) \<le> pos_y p \<and>
             pos_y p \<le> maxY (quadrantBounds 800 600 q) - (jsOr (node_r (?ns ! 1)) 0 + 5)
        else pos_y p = minY (quadrantBounds 800 600 q) + (jsOr (node_r (?ns ! 1)) 0 + 5))"
      by (elim exE) (rule that)
    from w have q: "quadrants (name (node_data (?ns ! 1))) = Some q"
      and xy: "node_x (res ! 1) = Some (pos_x p)" "node_y (res ! 1) = Some (pos_y p)"
      by simp_all
    from q have qt: "q = Top" by (simp add: exampleNodes_def mkNode_def quadrants_def)
    have r: "jsOr (node_r (?ns ! 1)) 0 = 50" by (simp add: exampleNodes_def mkNode_def jsOr_def)
    from w have bnd: "20 + (50 + 5) \<le> pos_x p" "pos_x p \<le> 780 - (50 + 5)"
        "20 + (50 + 5) \<le> pos_y p" "pos_y p \<le> 280 - (50 + 5)"
      unfolding qt r by (simp_all add: quadrantBounds_def Let_def)
    show ?thesis
    proof (intro conjI exI)
      show "distinct (map (\<lambda>d. name (node_data (?ns ! d)))
         (filter (\<lambda>d. node_depth (?ns ! d) = 1) [0..<length ?ns]))" by (rule dist)
      show "positionRegionCircles 800 600 ?ns = Inr res" by (rule ret)
      show "node_x (res ! 1) = Some (pos_x p)" by (rule xy(1))
      show "node_y (res ! 1) = Some (pos_y p)" by (rule xy(2))
      show "20 + (50 + 5) \<le> pos_x p" by (rule bnd(1))
      show "pos_x p \<le> 780 - (50 + 5)" by (rule bnd(2))
      show "20 + (50 + 5) \<le> pos_y p" by (rule bnd(3))
      show "pos_y p \<le> 280 - (50 + 5)" by (rule bnd(4))
    qed
  qed
  have large: "distinct (map (\<lambda>d. name (node_data
       ([mkNode ''Europe'' [] 400 300 300, mkNode ''Northern Europe'' [0] 400 160 140] ! d)))
     (filter (\<lambda>d. node_depth
         ([mkNode ''Europe'' [] 400 300 300, mkNode ''Northern Europe'' [0] 400 160 140] ! d) = 1)
        [0..<length [mkNode ''Europe'' [] 400 300 300, mkNode ''Northern Europe'' [0] 400 160 140]])) \<and>
   (\<exists>res (p :: Pos).
      positionRegionCircles 800 600
        [mkNode ''Europe'' [] 400 300 300, mkNode ''Northern Europe'' [0] 400 160 140] = Inr res \<and>
      node_x (res ! 1) = Some (pos_x p) \<and> node_y (res ! 1) = Some (pos_y p) \<and>
      20 + (140 + 5) \<le> pos_x p \<and> pos_x p \<le> 780 - (140 + 5) \<and>
      \<not> 20 + (140 + 5) \<le> (280 :: real) - (140 + 5) \<and> pos_y p = 20 + (140 + 5))"
  proof -
    let ?ns = "[mkNode ''Europe'' [] 400 300 300, mkNode ''Northern Europe'' [0] 400 160 140]"
    obtain res where ret: "positionRegionCircles 800 600 ?ns = Inr res"
      using ex_large_positioned by simp
    have len: "length ?ns = 2" by simp
    have rs: "filter (\<lambda>d. node_depth (?ns ! d) = 1) [0..<length ?ns] = [1]"
      unfolding len upt_2 by (simp add: mkNode_def)
    have a: "1 < length ?ns" "node_depth (?ns ! 1) = 1"
      by (simp_all add: mkNode_def)
    have dist: "distinct (map (\<lambda>d. name (node_data (?ns ! d)))
       (filter (\<lambda>d. node_depth (?ns ! d) = 1) [0..<length ?ns]))"
      unfolding rs by simp
    from positionRegionCircles_within_bounds [OF ret a dist]
    obtain q positions p where w:
       "quadrants (name (node_data (?ns ! 1))) = Some q \<and>
       calculateOptimalPositions
         (map (\<lambda>d. ?ns ! d) (filter (\<lambda>d. node_depth (?ns ! d) = 1) [0..<length ?ns]))
         800 600 quadrants = Inr positions \<and>
       positions (name (node_data (?ns ! 1))) = Some p \<and>
       node_x (res ! 1) = Some (pos_x p) \<and> node_y (res ! 1) = Some (pos_y p) \<and>
       (if minX (quadrantBounds 800 600 q) + (jsOr (node_r (?ns ! 1)) 0 + 5)
             \<le> maxX (quadrantBounds 800 600 q) - (jsOr (node_r (?ns ! 1)) 0 + 5)
        then minX (quadrantBounds 800 600 q) + (jsOr (node_r (?ns ! 1)) 0 + 5) \<le> pos_x p \<and>
             pos_x p \<le> maxX (quadrantBounds 800 600 q) - (jsOr (node_r (?ns ! 1)) 0 + 5)
        else pos_x p = minX (quadrantBounds 800 600 q) + (jsOr (node_r (?ns ! 1)) 0 + 5)) \<and>
       (if minY (quadrantBounds 800 600 q) + (jsOr (node_r (?ns ! 1)) 0 + 5)
             \<le> maxY (quadrantBounds 800 600 q) - (jsOr (node_r (?ns ! 1)) 0 + 5)
        then minY (quadrantBounds 800 600 q) + (jsOr (node_r (?ns ! 1)) 0 + 5) \<le> pos_y p \<and>
             pos_y p \<le> maxY (quadrantBounds 800 600 q) - (jsOr (node_r (?ns ! 1)) 0 + 5)
        else pos_y p = minY (quadrantBounds 800 600 q) + (jsOr (node_r (?ns ! 1)) 0 + 5))"
      by (elim exE) (rule that)
    from w have q: "quadrants (name (node_data (?ns ! 1))) = Some q"
      and xy: "node_x (res ! 1) = Some (pos_x p)" "node_y (res ! 1) = Some (pos_y p)"
      by simp_all
    from q have qt: "q = Top" by (simp add: mkNode_def quadrants_def)
    have r: "jsOr (node_r (?ns ! 1)) 0 = 140" by (simp add: mkNode_def jsOr_def)
    from w have bnd: "20 + (140 + 5) \<le> pos_x p" "pos_x p \<le> 780 - (140 + 5)"
        "pos_y p = 20 + (140 + 5)"
      unfolding qt r by (simp_all add: quadrantBounds_def Let_def)
    show ?thesis
    proof (intro conjI exI)
      show "distinct (map (\<lambda>d. name (node_data (?ns ! d)))
         (filter (\<lambda>d. node_depth (?ns ! d) = 1) [0..<length ?ns]))" by (rule dist)
      show "positionRegionCircles 800 600 ?ns = Inr res" by (rule ret)
      show "node_x (res ! 1) = Some (pos_x p)" by (rule xy(1))
      show "node_y (res ! 1) = Some (pos_y p)" by (rule xy(2))
      show "20 + (140 + 5) \<le> pos_x p" by (rule bnd(1))
      show "pos_x p \<le> 780 - (140 + 5)" by (rule bnd(2))
      show "\<not> 20 + (140 + 5) \<le> (280 :: real) - (140 + 5)" by simp
      show "pos_y p = 20 + (140 + 5)" by (rule bnd(3))
    qed
  qed
  from small large show ?thesis by (rule conjI)
qed

text \<open>
  Claim C2 as stated fails for a circle larger than its inset quadrant: with radius 140 in
  the top quadrant of an 800 by 600 container the clamp \<open>max lo (min hi y)\<close> has \<open>lo = 165\<close> and
  \<open>hi = 135\<close>, and returns 165, which becomes the \<open>y\<close> of the circle's final centre. Two region
  circles of one name share one position, clamped last for the second circle, which can
  leave it below the first circle's lower bound.
\<close>

theorem calculateOptimalPositions_bounds_counterexample:
  "map_sum id (\<lambda>positions. positions ''Northern Europe'')
     (calculateOptimalPositions [mkNode ''Northern Europe'' [0] 400 160 140] 800 600 quadrants)
     = Inr (Some \<lparr>pos_x = 400, pos_y = 165\<rparr>) \<and>
   \<not> 165 \<le> maxY (quadrantBounds 800 600 Top) - (140 + 5) \<and>
   map_sum id (map (\<lambda>n. (node_x n, node_y n)))
     (positionRegionCircles 800 600
        [mkNode ''Europe'' [] 400 300 300, mkNode ''Northern Europe'' [0] 400 160 140])
     = Inr [(Some 400, Some 300), (Some 400, Some 165)] \<and>
   map_sum id (\<lambda>positions. positions ''Northern Europe'')
     (calculateOptimalPositions
        [mkNode ''Northern Europe'' [0] 400 160 130, mkNode ''Northern Europe'' [0] 400 440 (601 / 5)]
        800 600 quadrants)
     = Inr (Some \<lparr>pos_x = 400, pos_y = 774 / 5\<rparr>) \<and>
   \<not> minY (quadrantBounds 800 600 Top) + (130 + 5) \<le> 774 / 5"
proof -
  have b1: "iterationBody (quadrantBounds 800 600)
      [\<lparr>region_name = ''Northern Europe'', region_radius = 130, region_quadrant = Some Top\<rparr>,
       \<lparr>region_name = ''Northern Europe'', region_radius = 601 / 5, region_quadrant = Some Top\<rparr>]
      [''Northern Europe'' \<mapsto> \<lparr>pos_x = 400, pos_y = 150\<rparr>]
    = Inr ([''Northern Europe'' \<mapsto> \<lparr>pos_x = 400, pos_y = 774 / 5\<rparr>], 26 / 5)"
    by (simp add: eval_defs)
  have b2: "iterationBody (quadrantBounds 800 600)
      [\<lparr>region_name = ''Northern Europe'', region_radius = 130, region_quadrant = Some Top\<rparr>,
       \<lparr>region_name = ''Northern Europe'', region_radius = 601 / 5, region_quadrant = Some Top\<rparr>]
      [''Northern Europe'' \<mapsto> \<lparr>pos_x = 400, pos_y = 774 / 5\<rparr>]
    = Inr ([''Northern Europe'' \<mapsto> \<lparr>pos_x = 400, pos_y = 774 / 5\<rparr>], 2 / 5)"
    by (simp add: eval_defs)
  have b: "calculateOptimalPositions
        [mkNode ''Northern Europe'' [0] 400 160 130, mkNode ''Northern Europe'' [0] 400 440 (601 / 5)]
        800 600 quadrants
     = Inr [''Northern Europe'' \<mapsto> \<lparr>pos_x = 400, pos_y = 774 / 5\<rparr>]"
    apply (simp add: calculateOptimalPositions_def mkRegion_def mkNode_def quadrants_def jsOr_def Let_def)
    apply (simp add: quadrantBounds_def [of _ _ Top] Let_def)
    apply (subst optimiseLoop.simps)
    apply (simp add: maxIterations_def b1)
    apply (subst optimiseLoop.simps)
    apply (simp add: maxIterations_def b2)
    done
  show ?thesis
    by (simp add: ex_large_region ex_large_positioned b quadrantBounds_def Let_def)
       (simp add: mkNode_def)
qed

text \<open>Claim C8 on the example: the root keeps its centre, the circles keep their radii.\<close>

theorem positionRegionCircles_frame_witness:
  "\<exists>res. positionRegionCircles 800 600 (exampleNodes ''Northern Europe'' 300 100) = Inr res \<and>
     length res = 3 \<and> node_x (res ! 0) = Some 400 \<and> node_y (res ! 0) = Some 300 \<and>
     node_r (res ! 1) = Some 50 \<and> node_r (res ! 2) = Some 5 \<and>
     node_parents (res ! 2) = [1, 0]"
proof -
  let ?ns = "exampleNodes ''Northern Europe'' 300 100"
  obtain res where ret: "positionRegionCircles 800 600 ?ns = Inr res"
    using ex_positioned [of 300 100] by simp
  have root: "0 < length ?ns \<and> node_depth (?ns ! 0) \<noteq> 1 \<and>
        \<not> (\<exists>a < length ?ns. node_depth (?ns ! a) = 1 \<and> isDescendantOf (?ns ! 0) a)"
    by (simp add: exampleNodes_def mkNode_def isDescendantOf_def)
  from positionRegionCircles_frame [OF ret] root
  have "length res = length ?ns" "node_x (res ! 0) = node_x (?ns ! 0)" "node_y (res ! 0) = node_y (?ns ! 0)"
    "node_r (res ! 1) = node_r (?ns ! 1)" "node_r (res ! 2) = node_r (?ns ! 2)"
    "node_parents (res ! 2) = node_parents (?ns ! 2)"
    by blast+
  then have "length res = 3 \<and> node_x (res ! 0) = Some 400 \<and> node_y (res ! 0) = Some 300 \<and>
     node_r (res ! 1) = Some 50 \<and> node_r (res ! 2) = Some 5 \<and> node_parents (res ! 2) = [1, 0]"
    by (simp add: exampleNodes_def mkNode_def)
  with ret show ?thesis by blast
qed

text \<open>
  Claim C7 on the example: three names of the assignment map have no circle, and the
  operation succeeds and puts the region circle at its computed position \<open>(400, 150)\<close>; a
  region circle named \<open>Atlantis\<close> makes it throw a \<open>TypeError\<close>.
\<close>

theorem positionRegionCircles_missing_entry_witness:
  "(\<exists>res. positionRegionCircles 800 600 (exampleNodes ''Northern Europe'' 300 100) = Inr res \<and>
      node_x (res ! 1) = Some 400 \<and> node_y (res ! 1) = Some 150) \<and>
   positionRegionCircles 800 600 (exampleNodes ''Atlantis'' 300 100) = Inl TypeError"
proof -
  let ?ns = "exampleNodes ''Northern Europe'' 300 100"
  let ?at = "exampleNodes ''Atlantis'' 300 100"
  have h1: "\<forall>j < length ?ns. node_depth (?ns ! j) = 1
        \<longrightarrow> quadrants (name (node_data (?ns ! j))) \<noteq> None"
    by (simp add: exampleNodes_def mkNode_def quadrants_def less_Suc_eq eval_nat_numeral)
  have h2: "\<exists>j < length ?at. node_depth (?at ! j) = 1
        \<and> quadrants (name (node_data (?at ! j))) = None"
    by (rule exI [of _ 1]) (simp add: exampleNodes_def mkNode_def quadrants_def)
  note t1 = positionRegionCircles_missing_entry [where nodes = ?ns and packWidth = 800 and packHeight = 600]
  from t1 h1 obtain res where ret: "positionRegionCircles 800 600 ?ns = Inr res" by blast
  have a: "1 < length ?ns" "node_depth (?ns ! 1) = 1" by (simp_all add: exampleNodes_def mkNode_def)
  have calc: "calculateOptimalPositions
      (map (\<lambda>d. ?ns ! d) (filter (\<lambda>d. node_depth (?ns ! d) = 1) [0..<length ?ns])) 800 600 quadrants
     = Inr [''Northern Europe'' \<mapsto> \<lparr>pos_x = 400, pos_y = 150\<rparr>]"
    unfolding ex_region_nodes using ex_one_region [of "[0]" 300 100] by (simp add: exampleNodes_def)
  from t1 ret a obtain positions p where
    c: "calculateOptimalPositions
      (map (\<lambda>d. ?ns ! d) (filter (\<lambda>d. node_depth (?ns ! d) = 1) [0..<length ?ns])) 800 600 quadrants
     = Inr positions"
    and p: "positions (name (node_data (?ns ! 1))) = Some p"
    and xy: "node_x (res ! 1) = Some (pos_x p)" "node_y (res ! 1) = Some (pos_y p)"
    by blast
  from c calc have "positions = [''Northern Europe'' \<mapsto> \<lparr>pos_x = 400, pos_y = 150\<rparr>]" by simp
  with p have "p = \<lparr>pos_x = 400, pos_y = 150\<rparr>" by (simp add: exampleNodes_def mkNode_def)
  with xy have r: "node_x (res ! 1) = Some 400 \<and> node_y (res ! 1) = Some 150" by simp
  from positionRegionCircles_missing_entry [where nodes = ?at and packWidth = 800 and packHeight = 600] h2
  have b: "positionRegionCircles 800 600 ?at = Inl TypeError" by blast
  from ret r b show ?thesis by blast
qed


end
